theory Spec2Isabelle
  imports Main "HOL-Library.AList"
begin

section \<open>JavaScript values\<close>

text \<open>
  The values handed to a checker are JavaScript values of type \<open>any\<close>. Numbers are
  modelled as integers and strings as lists of code units below 256. A symbol is its
  identity; a function is its identity and the number of its declared parameters (its
  \<open>length\<close>). \<open>VArr\<close> is an array given by its elements and \<open>VObj\<close> a plain object given by
  its enumerable own properties in enumeration order; both inherit from \<open>Array.prototype\<close>
  and \<open>Object.prototype\<close>. Any other object (a Date, a RegExp, a typed array, a Buffer, an
  instance of a class) is \<open>VNative tag props members\<close>: the class that
  \<open>Object.prototype.toString\<close> and \<open>instanceof\<close> see, the enumerable properties that
  \<open>for ... in\<close> visits, and the further properties that a property read finds (own
  properties that are not enumerable and those of the whole prototype chain).
\<close>

datatype jsval =
    VUndefined
  | VNull
  | VBool bool
  | VNum int
  | VStr string
  | VSym nat
  | VFunc nat nat
  | VArr "jsval list"
  | VObj "(string \<times> jsval) list"
  | VNative string "(string \<times> jsval) list" "(string \<times> jsval) list"

text \<open>Errors thrown by the library (\<open>throw new Error(...)\<close>) and by the runtime.\<close>

datatype error = Error string | TypeError string | VError string

text \<open>
  A computation either gives no result (\<open>None\<close>: the call stack is deeper than the budget,
  a loop does not end, or control passes to a function that the value holds), throws
  (\<open>Some (Inl e)\<close>) or returns (\<open>Some (Inr x)\<close>).
\<close>

type_synonym 'a res = "(error + 'a) option"

definition ret :: "'a \<Rightarrow> 'a res" where
  "ret x = Some (Inr x)"

definition throw :: "error \<Rightarrow> 'a res" where
  "throw e = Some (Inl e)"

definition bind :: "'a res \<Rightarrow> ('a \<Rightarrow> 'b res) \<Rightarrow> 'b res" where
  "bind m f = (case m of None \<Rightarrow> None | Some (Inl e) \<Rightarrow> Some (Inl e) | Some (Inr x) \<Rightarrow> f x)"

fun show_nat :: "nat \<Rightarrow> string" where
  "show_nat n = (if n < 10 then [''0123456789'' ! n]
                 else show_nat (n div 10) @ [''0123456789'' ! (n mod 10)])"

declare show_nat.simps [simp del]

text \<open>\<open>typeof value === "object"\<close>\<close>

fun typeof_object :: "jsval \<Rightarrow> bool" where
  "typeof_object VNull = True"
| "typeof_object (VArr xs) = True"
| "typeof_object (VObj kvs) = True"
| "typeof_object (VNative tag props members) = True"
| "typeof_object v = False"

text \<open>\<open>Array.isArray(value)\<close>\<close>

fun isArray :: "jsval \<Rightarrow> bool" where
  "isArray (VArr xs) = True"
| "isArray v = False"

text \<open>\<open>value[i]\<close> on an array: \<open>undefined\<close> beyond the end.\<close>

definition arr_index :: "jsval list \<Rightarrow> nat \<Rightarrow> jsval" where
  "arr_index xs i = (if i < length xs then xs ! i else VUndefined)"

text \<open>The enumerable properties that \<open>for (const prop in value)\<close> visits, with their values.\<close>

fun own_entries :: "jsval \<Rightarrow> (string \<times> jsval) list" where
  "own_entries (VArr xs) = zip (map show_nat [0..<length xs]) xs"
| "own_entries (VObj kvs) = kvs"
| "own_entries (VNative tag props members) = props"
| "own_entries v = []"

text \<open>
  The properties of \<open>Object.prototype\<close>, none of them enumerable: its functions (with
  their \<open>length\<close>) and the accessor \<open>__proto__\<close>, which on a plain object gives
  \<open>Object.prototype\<close> itself, an object whose own prototype is \<open>null\<close>.
\<close>

definition object_methods :: "(string \<times> jsval) list" where
  "object_methods =
     [(''constructor'', VFunc 1 1), (''__defineGetter__'', VFunc 2 2), (''__defineSetter__'', VFunc 3 2),
      (''hasOwnProperty'', VFunc 4 1), (''__lookupGetter__'', VFunc 5 1), (''__lookupSetter__'', VFunc 6 1),
      (''isPrototypeOf'', VFunc 7 1), (''propertyIsEnumerable'', VFunc 8 1), (''toString'', VFunc 9 0),
      (''valueOf'', VFunc 10 0), (''toLocaleString'', VFunc 11 0)]"

definition object_prototype :: "(string \<times> jsval) list" where
  "object_prototype =
     object_methods @ [(''__proto__'', VNative ''Object'' [] (object_methods @ [(''__proto__'', VNull)]))]"

text \<open>
  The properties of \<open>Array.prototype\<close> (ECMAScript 2023), none of them enumerable. It
  is itself an empty array, which \<open>__proto__\<close> gives on an array.
\<close>

definition array_prototype :: "(string \<times> jsval) list" where
  "array_prototype =
     [(''constructor'', VFunc 20 1), (''at'', VFunc 21 1), (''concat'', VFunc 22 1),
      (''copyWithin'', VFunc 23 2), (''fill'', VFunc 24 1), (''find'', VFunc 25 1),
      (''findIndex'', VFunc 26 1), (''findLast'', VFunc 27 1), (''findLastIndex'', VFunc 28 1),
      (''lastIndexOf'', VFunc 29 1), (''pop'', VFunc 30 0), (''push'', VFunc 31 1),
      (''reverse'', VFunc 32 0), (''shift'', VFunc 33 0), (''unshift'', VFunc 34 1),
      (''slice'', VFunc 35 2), (''sort'', VFunc 36 1), (''splice'', VFunc 37 2),
      (''includes'', VFunc 38 1), (''indexOf'', VFunc 39 1), (''join'', VFunc 40 1),
      (''keys'', VFunc 41 0), (''entries'', VFunc 42 0), (''values'', VFunc 43 0),
      (''forEach'', VFunc 44 1), (''filter'', VFunc 45 1), (''flat'', VFunc 46 0),
      (''flatMap'', VFunc 47 1), (''map'', VFunc 48 1), (''every'', VFunc 49 1),
      (''some'', VFunc 50 1), (''reduce'', VFunc 51 1), (''reduceRight'', VFunc 52 1),
      (''toLocaleString'', VFunc 53 0), (''toString'', VFunc 54 0), (''toReversed'', VFunc 55 0),
      (''toSorted'', VFunc 56 1), (''toSpliced'', VFunc 57 2), (''with'', VFunc 58 2),
      (''__proto__'', VArr [])]"

definition lookup :: "(string \<times> jsval) list \<Rightarrow> string \<Rightarrow> jsval" where
  "lookup kvs k = (case map_of kvs k of Some v \<Rightarrow> v | None \<Rightarrow> VUndefined)"

text \<open>
  \<open>value[name]\<close> on a value that passed the \<open>typeof value === "object"\<close> test: the own
  property, or else the one found along the prototype chain.
\<close>

fun get_member :: "jsval \<Rightarrow> string \<Rightarrow> jsval" where
  "get_member (VArr xs) k =
     (if k = ''length'' then VNum (int (length xs))
      else lookup (own_entries (VArr xs) @ array_prototype @ object_prototype) k)"
| "get_member (VObj kvs) k = lookup (kvs @ object_prototype) k"
| "get_member (VNative tag props members) k = lookup (props @ members) k"
| "get_member v k = VUndefined"

text \<open>
  \<open>a === b\<close>: primitives compare by value, symbols and functions by identity; two
  object references held by a type node and by the checked value are never the same object.
\<close>

fun strict_eq :: "jsval \<Rightarrow> jsval \<Rightarrow> bool" where
  "strict_eq (VArr xs) b = False"
| "strict_eq (VObj kvs) b = False"
| "strict_eq (VNative t props members) b = False"
| "strict_eq a b = (a = b)"


section \<open>Diagnostic contexts\<close>

text \<open>
  Modelled from the spec: the module \<open>./util\<close> (IContext, NoopContext, DetailContext and
  the union resolver) is imported by the sources but is not among them. A frame is the
  triple \<open>(key, message, score)\<close> handed to \<open>fail\<close>; the key \<open>relPath\<close> is a property
  name, an array index or \<open>null\<close>.
\<close>

datatype relPath = PNone | PName string | PIndex nat

type_synonym frame = "relPath \<times> string option \<times> int"

text \<open>
  Modelled from the spec: the two context behaviours of section 4.1. The Noop context
  records no frame, only whether a failure happened; the Detail context keeps its stack of
  frames (leaf first) and the forks that failed.
\<close>

datatype ctx =
    NoopContext bool
  | DetailContext "frame list" "ctx list"

text \<open>Modelled from the spec: \<open>failed()\<close>, whether any failure was recorded.\<close>

fun failed :: "ctx \<Rightarrow> bool" where
  "failed (NoopContext f) = f"
| "failed (DetailContext frames forks) = (frames \<noteq> [] \<or> forks \<noteq> [])"

text \<open>
  Modelled from the spec: \<open>fail(key, message, score)\<close> pushes a frame; the value \<open>false\<close>
  that it returns is written where the checker returns it.
\<close>

fun fail :: "relPath \<Rightarrow> string option \<Rightarrow> int \<Rightarrow> ctx \<Rightarrow> ctx" where
  "fail k m s (NoopContext f) = NoopContext True"
| "fail k m s (DetailContext frames forks) = DetailContext (frames @ [(k, m, s)]) forks"

text \<open>Modelled from the spec: \<open>fork()\<close> creates an isolated child context.\<close>

fun fork :: "ctx \<Rightarrow> ctx" where
  "fork (NoopContext f) = NoopContext False"
| "fork (DetailContext frames forks) = DetailContext [] []"

text \<open>
  Modelled from the spec: \<open>completeFork()\<close> merges the most recent fork (given here in its
  final state) back into the parent and returns whether the combined state is still
  recoverable. The spec has errors accumulate and rules out a short-circuit on the first
  failure ("\<open>fork\<close>/\<open>completeFork\<close> cannot short-circuit on first failure", "always run all
  conjuncts even on early failure"), so the boolean is \<open>true\<close> in both contexts: the Noop
  context keeps that a fork failed, the Detail context keeps the failed fork.
\<close>

fun completeFork :: "ctx \<Rightarrow> ctx \<Rightarrow> bool \<times> ctx" where
  "completeFork (NoopContext f) child = (True, NoopContext (f \<or> failed child))"
| "completeFork (DetailContext frames forks) child =
     (True, DetailContext frames (if failed child then forks @ [child] else forks))"

text \<open>
  Modelled from the spec: the union resolver, a sub-context that creates one child context
  per alternative and keeps them.
\<close>

datatype resolver = UnionResolver bool "ctx list"

fun unionResolver :: "ctx \<Rightarrow> resolver" where
  "unionResolver (NoopContext f) = UnionResolver True []"
| "unionResolver (DetailContext frames forks) = UnionResolver False []"

fun createContext :: "resolver \<Rightarrow> ctx" where
  "createContext (UnionResolver noop cs) = (if noop then NoopContext False else DetailContext [] [])"

text \<open>The resolver keeps the child context, here in the state the alternative left it in.\<close>

fun keepContext :: "resolver \<Rightarrow> ctx \<Rightarrow> resolver" where
  "keepContext (UnionResolver noop cs) child = UnionResolver noop (cs @ [child])"

text \<open>
  Modelled from the spec: \<open>resolveUnion\<close> picks the child whose failure reached the greatest
  depth, the highest cumulative score breaking ties and insertion order after that, and
  promotes its frames into the parent. The Noop context records nothing.
\<close>

fun ctx_depth :: "ctx \<Rightarrow> nat" where
  "ctx_depth (NoopContext f) = 0"
| "ctx_depth (DetailContext frames forks) = length frames"

fun ctx_score :: "ctx \<Rightarrow> int" where
  "ctx_score (NoopContext f) = 0"
| "ctx_score (DetailContext frames forks) = sum_list (map (\<lambda>(k, m, s). s) frames)"

definition better :: "ctx \<Rightarrow> ctx \<Rightarrow> bool" where
  "better a b = (ctx_depth b < ctx_depth a \<or> (ctx_depth a = ctx_depth b \<and> ctx_score b < ctx_score a))"

fun best_of :: "ctx \<Rightarrow> ctx list \<Rightarrow> ctx" where
  "best_of b [] = b"
| "best_of b (c # cs) = best_of (if better c b then c else b) cs"

fun promote :: "ctx \<Rightarrow> ctx \<Rightarrow> ctx" where
  "promote (DetailContext frames forks) (DetailContext frames' forks') =
     DetailContext (frames @ frames') (forks @ forks')"
| "promote parent child = parent"

fun resolveUnion :: "ctx \<Rightarrow> resolver \<Rightarrow> ctx" where
  "resolveUnion (NoopContext f) ur = NoopContext f"
| "resolveUnion parent (UnionResolver noop []) = parent"
| "resolveUnion parent (UnionResolver noop (c # cs)) = promote parent (best_of c cs)"

text \<open>
  Modelled from the spec: rendering. Frames are leaf first, so the path joins the keys in
  reverse; numeric keys render as \<open>[i]\<close>, names as \<open>.name\<close>; the message is the deepest
  one recorded. The details list has one entry per failed fork.
\<close>

fun render_key :: "relPath \<Rightarrow> string" where
  "render_key PNone = []"
| "render_key (PName s) = ''.'' @ s"
| "render_key (PIndex i) = ''['' @ show_nat i @ '']''"

definition frames_path :: "string \<Rightarrow> frame list \<Rightarrow> string" where
  "frames_path root frames = root @ concat (map (\<lambda>(k, m, s). render_key k) (rev frames))"

definition frames_message :: "frame list \<Rightarrow> string option" where
  "frames_message frames = (case filter (\<lambda>(k, m, s). m \<noteq> None) frames of
     [] \<Rightarrow> None | (k, m, s) # rest \<Rightarrow> m)"

fun getErrorDetails :: "string \<Rightarrow> ctx \<Rightarrow> (string \<times> string) list" where
  "getErrorDetails root (NoopContext f) = []"
| "getErrorDetails root (DetailContext frames forks) =
     (case frames_message frames of
        None \<Rightarrow> []
      | Some m \<Rightarrow> [(frames_path root frames, m)])
     @ concat (map (getErrorDetails (frames_path root frames)) forks)"

definition getError :: "string \<Rightarrow> ctx \<Rightarrow> error" where
  "getError root c = (case getErrorDetails root c of
     [] \<Rightarrow> VError root
   | (p, m) # rest \<Rightarrow> VError (p @ '' '' @ m))"


section \<open>Compiled checkers\<close>

text \<open>
  \<open>getChecker\<close> returns a closure \<open>(value, ctx) => boolean\<close>. Each constructor below is
  one of the closures that the source returns, with the variables it captures. The closure
  that \<open>TName.getChecker\<close> installs while the node is being built,
  \<open>(value, ctx) => checkerFunc!(value, ctx)\<close>, captures the local variable \<open>checkerFunc\<close>
  of that call: \<open>CTramp\<close> holds the address of that variable. The closures of an interface
  capture the set \<open>allowedProps\<close>, a shared mutable object, by its address.
\<close>

datatype chk =
    CBasic "jsval \<Rightarrow> bool" string
  | CLiteral jsval string
  | CEnumLiteral jsval string
  | CTramp nat
  | CName chk string
  | CArray chk
  | CRest chk "nat option"
  | CTuple "chk list"
  | CTupleRest "chk list" chk
  | CTupleStrict "chk list"
  | CUnion "chk list" string
  | CIntersection "chk list"
  | CPartial chk
  | CEnumType "jsval list" string
  | CIface "chk list" "(string \<times> chk \<times> bool) list" bool "chk option" bool nat
  | COptional chk
  | CFunc
  | CParamList "(string \<times> chk \<times> bool) list"
  | CParamListStrict "(string \<times> chk \<times> bool) list"

text \<open>
  \<open>CIface baseCheckers props isPartial indexTypeChecker strict allowedProps\<close>: \<open>props\<close>
  lists, for every own property \<open>i\<close>, the name \<open>this.props[i].name\<close>, the closure
  \<open>propCheckers[i]\<close> and the flag \<open>isPropRequired[i]\<close>; the three arrays of the source have
  the same length by construction. \<open>CParamList\<close> does the same with \<open>this.params[i].name\<close>,
  \<open>itemCheckers[i]\<close> and \<open>isParamRequired[i]\<close>.
\<close>

text \<open>The heap that closures read: the \<open>checkerFunc\<close> variables and the \<open>allowedProps\<close> sets.\<close>

record store =
  cells :: "(nat \<times> chk) list"
  sets :: "(nat \<times> string list) list"

definition set_has :: "store \<Rightarrow> nat \<Rightarrow> string \<Rightarrow> bool" where
  "set_has st a k = (case map_of (sets st) a of None \<Rightarrow> False | Some ks \<Rightarrow> k \<in> set ks)"

type_synonym checked = "(bool \<times> ctx) res"

text \<open>\<open>return ctx.fail(key, message, score)\<close>\<close>

definition failing :: "relPath \<Rightarrow> string option \<Rightarrow> int \<Rightarrow> ctx \<Rightarrow> checked" where
  "failing k m s c = ret (False, fail k m s c)"

text \<open>
  The loops of the closures. Each takes the closure call as a parameter \<open>call\<close>, so that
  \<open>run\<close> below passes itself with a smaller stack budget.
\<close>

text \<open>\<open>TArray\<close> and \<open>RestType\<close>: \<open>for (i = ...; i < value.length; i++)\<close> over the elements from index \<open>i\<close>.\<close>

fun array_loop :: "(jsval \<Rightarrow> ctx \<Rightarrow> checked) \<Rightarrow> jsval list \<Rightarrow> nat \<Rightarrow> ctx \<Rightarrow> checked" where
  "array_loop call [] i c = ret (True, c)"
| "array_loop call (x # xs) i c =
     bind (call x c) (\<lambda>(ok, c').
       if \<not> ok then failing (PIndex i) None 1 c' else array_loop call xs (Suc i) c')"

text \<open>\<open>TTuple\<close>: \<open>for (i = 0; i < itemCheckers.length; i++)\<close> on \<open>value[i]\<close>.\<close>

fun tuple_loop :: "(chk \<Rightarrow> jsval \<Rightarrow> ctx \<Rightarrow> checked) \<Rightarrow> chk list \<Rightarrow> jsval list \<Rightarrow> nat \<Rightarrow> ctx \<Rightarrow> checked" where
  "tuple_loop call [] xs i c = ret (True, c)"
| "tuple_loop call (k # ks) xs i c =
     bind (call k (arr_index xs i) c) (\<lambda>(ok, c').
       if \<not> ok then failing (PIndex i) None 1 c' else tuple_loop call ks xs (Suc i) c')"

text \<open>
  \<open>TUnion\<close>: every alternative runs in a context created by the resolver; the first
  success returns \<open>true\<close>. The result is \<open>None\<close> on a success and the resolver otherwise.
\<close>

fun union_loop :: "(chk \<Rightarrow> jsval \<Rightarrow> ctx \<Rightarrow> checked) \<Rightarrow> chk list \<Rightarrow> jsval \<Rightarrow> resolver \<Rightarrow> resolver option res" where
  "union_loop call [] v ur = ret (Some ur)"
| "union_loop call (k # ks) v ur =
     bind (call k v (createContext ur)) (\<lambda>(ok, c').
       if ok then ret None else union_loop call ks v (keepContext ur c'))"

text \<open>
  \<open>TIntersection\<close>: \<open>itemCheckers.every(checker => { checker(value, ctx.fork()); return
  ctx.completeFork(); })\<close>; \<open>every\<close> stops at the first callback that returns \<open>false\<close>.
\<close>

fun every_loop :: "(chk \<Rightarrow> jsval \<Rightarrow> ctx \<Rightarrow> checked) \<Rightarrow> chk list \<Rightarrow> jsval \<Rightarrow> ctx \<Rightarrow> checked" where
  "every_loop call [] v c = ret (True, c)"
| "every_loop call (k # ks) v c =
     bind (call k v (fork c)) (\<lambda>(ok, child).
       case completeFork c child of
         (True, c') \<Rightarrow> every_loop call ks v c'
       | (False, c') \<Rightarrow> ret (False, c'))"

text \<open>
  \<open>TIface\<close>, the loop over \<open>baseCheckers\<close>; the result \<open>False\<close> is the early
  \<open>return false\<close>.
\<close>

fun iface_bases :: "(chk \<Rightarrow> jsval \<Rightarrow> ctx \<Rightarrow> checked) \<Rightarrow> chk list \<Rightarrow> jsval \<Rightarrow> ctx \<Rightarrow> checked" where
  "iface_bases call [] v c = ret (True, c)"
| "iface_bases call (k # ks) v c =
     bind (call k v (fork c)) (\<lambda>(ok, child).
       case completeFork c child of
         (True, c') \<Rightarrow> iface_bases call ks v c'
       | (False, c') \<Rightarrow> ret (False, c'))"

text \<open>\<open>TIface\<close>, the loop over \<open>propCheckers\<close>.\<close>

fun iface_props :: "(chk \<Rightarrow> jsval \<Rightarrow> ctx \<Rightarrow> checked) \<Rightarrow> bool \<Rightarrow> (string \<times> chk \<times> bool) list \<Rightarrow> jsval \<Rightarrow> ctx \<Rightarrow> checked" where
  "iface_props call isPartial [] v c = ret (True, c)"
| "iface_props call isPartial ((name, pc, required) # ps) v c =
     (if get_member v name = VUndefined then
        (if required \<and> \<not> isPartial then
           (case completeFork c (fail (PName name) (Some ''is missing'') 1 (fork c)) of
              (True, c') \<Rightarrow> iface_props call isPartial ps v c'
            | (False, c') \<Rightarrow> ret (False, c'))
         else iface_props call isPartial ps v c)
      else
        bind (call pc (get_member v name) (fork c)) (\<lambda>(ok, child).
          case completeFork c (if \<not> ok then fail (PName name) None 1 child else child) of
            (True, c') \<Rightarrow> iface_props call isPartial ps v c'
          | (False, c') \<Rightarrow> ret (False, c')))"

text \<open>
  \<open>TIface\<close>, the loop \<open>for (const prop in value)\<close> when there is an index signature; it
  reads \<open>value[prop]\<close> for every key.
\<close>

fun iface_index :: "(jsval \<Rightarrow> ctx \<Rightarrow> checked) \<Rightarrow> jsval \<Rightarrow> string list \<Rightarrow> ctx \<Rightarrow> checked" where
  "iface_index call v [] c = ret (True, c)"
| "iface_index call v (prop # ks) c =
     bind (call (get_member v prop) (fork c)) (\<lambda>(ok, child).
       case completeFork c (if \<not> ok then fail (PName prop) None 1 child else child) of
         (True, c') \<Rightarrow> iface_index call v ks c'
       | (False, c') \<Rightarrow> ret (False, c'))"

text \<open>\<open>TIface\<close>, the loop over the keys of the value in strict mode without index signature.\<close>

fun iface_extraneous :: "(string \<Rightarrow> bool) \<Rightarrow> string list \<Rightarrow> ctx \<Rightarrow> bool \<times> ctx" where
  "iface_extraneous allowed [] c = (True, c)"
| "iface_extraneous allowed (prop # ks) c =
     (if \<not> allowed prop then
        (case completeFork c (fail (PName prop) (Some ''is extraneous'') 2 (fork c)) of
           (True, c') \<Rightarrow> iface_extraneous allowed ks c'
         | (False, c') \<Rightarrow> (False, c'))
      else iface_extraneous allowed ks c)"

text \<open>\<open>TParamList\<close>: the loop over \<open>itemCheckers\<close>.\<close>

fun params_loop :: "(chk \<Rightarrow> jsval \<Rightarrow> ctx \<Rightarrow> checked) \<Rightarrow> (string \<times> chk \<times> bool) list \<Rightarrow> jsval list \<Rightarrow> nat \<Rightarrow> ctx \<Rightarrow> checked" where
  "params_loop call [] xs i c = ret (True, c)"
| "params_loop call ((name, pc, required) # ps) xs i c =
     (if arr_index xs i = VUndefined then
        (if required then failing (PName name) (Some ''is missing'') 1 c
         else params_loop call ps xs (Suc i) c)
      else
        bind (call pc (arr_index xs i) c) (\<lambda>(ok, c').
          if \<not> ok then failing (PName name) None 1 c' else params_loop call ps xs (Suc i) c'))"


text \<open>The elements of an array.\<close>

fun elems :: "jsval \<Rightarrow> jsval list" where
  "elems (VArr xs) = xs"
| "elems v = []"

text \<open>
  \<open>value.length\<close> and \<open>value[i]\<close> as the closure of \<open>RestType\<close> reads them, on any value:
  reading a property of \<open>undefined\<close> or \<open>null\<close> throws a TypeError; a boolean, a number
  and a symbol have no such property.
\<close>

fun js_length :: "jsval \<Rightarrow> error + jsval" where
  "js_length VUndefined = Inl (TypeError ''Cannot read properties of undefined'')"
| "js_length VNull = Inl (TypeError ''Cannot read properties of null'')"
| "js_length (VStr s) = Inr (VNum (int (length s)))"
| "js_length (VFunc f n) = Inr (VNum (int n))"
| "js_length (VArr xs) = Inr (get_member (VArr xs) ''length'')"
| "js_length (VObj kvs) = Inr (get_member (VObj kvs) ''length'')"
| "js_length (VNative tag props members) = Inr (get_member (VNative tag props members) ''length'')"
| "js_length v = Inr VUndefined"

fun js_at :: "jsval \<Rightarrow> nat \<Rightarrow> jsval" where
  "js_at (VArr xs) i = arr_index xs i"
| "js_at (VStr s) i = (if i < length s then VStr [s ! i] else VUndefined)"
| "js_at (VObj kvs) i = get_member (VObj kvs) (show_nat i)"
| "js_at (VNative tag props members) i = get_member (VNative tag props members) (show_nat i)"
| "js_at v i = VUndefined"

text \<open>
  The comparison \<open>i < value.length\<close> converts the length to a number. What the loop needs
  of that number is the set of indices \<open>i\<close> below it: all \<open>i < n\<close>, or every \<open>i\<close> when the
  number is \<open>Infinity\<close>; no index is below \<open>NaN\<close>, zero or a negative number.
\<close>

datatype bound = Below nat | Unbounded

text \<open>
  The conversion of a string to a number (\<open>StringToNumber\<close>): white space is trimmed, the
  empty string is 0, then a binary, octal or hexadecimal integer, or a decimal literal with
  an optional sign, fraction and exponent, or \<open>Infinity\<close>; anything else is \<open>NaN\<close>. The
  value is the exact one, not rounded to a double.
\<close>

definition is_space :: "char \<Rightarrow> bool" where
  "is_space ch = (of_char ch \<in> {9, 10, 11, 12, 13, 32, 160 :: nat})"

definition trim :: "string \<Rightarrow> string" where
  "trim s = rev (dropWhile is_space (rev (dropWhile is_space s)))"

definition digit_value :: "char \<Rightarrow> nat option" where
  "digit_value ch =
     (let n = of_char ch :: nat in
      if 48 \<le> n \<and> n \<le> 57 then Some (n - 48)
      else if 97 \<le> n \<and> n \<le> 102 then Some (n - 87)
      else if 65 \<le> n \<and> n \<le> 70 then Some (n - 55)
      else None)"

definition is_digit :: "nat \<Rightarrow> char \<Rightarrow> bool" where
  "is_digit base ch = (case digit_value ch of None \<Rightarrow> False | Some d \<Rightarrow> d < base)"

definition digits_value :: "nat \<Rightarrow> string \<Rightarrow> nat" where
  "digits_value base ds =
     foldl (\<lambda>a ch. a * base + (case digit_value ch of None \<Rightarrow> 0 | Some d \<Rightarrow> d)) 0 ds"

text \<open>The digits of an integer literal in the given base: at least one, and nothing else.\<close>

definition integer_bound :: "nat \<Rightarrow> string \<Rightarrow> bound" where
  "integer_bound base ds =
     (if ds \<noteq> [] \<and> list_all (is_digit base) ds then Below (digits_value base ds) else Below 0)"

text \<open>The exponent part: nothing, or \<open>e\<close> or \<open>E\<close>, an optional sign and at least one digit.\<close>

definition exponent_of :: "string \<Rightarrow> int option" where
  "exponent_of s =
     (case s of
        [] \<Rightarrow> Some 0
      | c # t \<Rightarrow>
          if c = CHR ''e'' \<or> c = CHR ''E'' then
            (let neg = (t \<noteq> [] \<and> hd t = CHR ''-'');
                 ds = (if t \<noteq> [] \<and> (hd t = CHR ''-'' \<or> hd t = CHR ''+'') then tl t else t)
             in if ds \<noteq> [] \<and> list_all (is_digit 10) ds
                then Some (if neg then - int (digits_value 10 ds) else int (digits_value 10 ds))
                else None)
          else None)"

text \<open>
  An unsigned decimal literal: digits, an optional point with digits, an optional
  exponent; at least one digit before or after the point. The indices below the value
  \<open>m * 10 ^ k\<close> are those below its ceiling.
\<close>

definition decimal_bound :: "string \<Rightarrow> bound" where
  "decimal_bound s =
     (if s = ''Infinity'' then Unbounded
      else
        (let ip = takeWhile (is_digit 10) s;
             r = dropWhile (is_digit 10) s;
             point = (r \<noteq> [] \<and> hd r = CHR ''.'');
             fp = (if point then takeWhile (is_digit 10) (tl r) else []);
             e = (if point then dropWhile (is_digit 10) (tl r) else r)
         in if ip = [] \<and> fp = [] then Below 0
            else
              (case exponent_of e of
                 None \<Rightarrow> Below 0
               | Some x \<Rightarrow>
                   (let m = digits_value 10 (ip @ fp);
                        k = x - int (length fp)
                    in if 0 \<le> k then Below (m * 10 ^ nat k)
                       else Below ((m + 10 ^ nat (- k) - 1) div 10 ^ nat (- k))))))"

definition string_bound :: "string \<Rightarrow> bound" where
  "string_bound s =
     (let t = trim s in
      if t = [] then Below 0
      else if take 2 t = ''0x'' \<or> take 2 t = ''0X'' then integer_bound 16 (drop 2 t)
      else if take 2 t = ''0o'' \<or> take 2 t = ''0O'' then integer_bound 8 (drop 2 t)
      else if take 2 t = ''0b'' \<or> take 2 t = ''0B'' then integer_bound 2 (drop 2 t)
      else if hd t = CHR ''-'' then Below 0
      else if hd t = CHR ''+'' then decimal_bound (tl t)
      else decimal_bound t)"

text \<open>
  The conversion of an object to a primitive calls its \<open>valueOf\<close> and \<open>toString\<close>. For a
  plain object without such properties of its own these are the functions of
  \<open>Object.prototype\<close>, and the string is \<open>[object Object]\<close>; an own property that is not a
  function is skipped, and a TypeError is thrown when no function gave a primitive. An
  own property that is a function is code that the value holds: no result. The same
  holds for the methods of a native object.
\<close>

fun is_func :: "jsval option \<Rightarrow> bool" where
  "is_func (Some (VFunc f n)) = True"
| "is_func v = False"

definition object_to_string :: "(string \<times> jsval) list \<Rightarrow> unit res" where
  "object_to_string kvs =
     (if is_func (map_of kvs ''toString'') then None
      else if map_of kvs ''toString'' = None then ret ()
      else if is_func (map_of kvs ''valueOf'') then None
      else throw (TypeError ''Cannot convert object to primitive value''))"

definition object_to_number :: "(string \<times> jsval) list \<Rightarrow> unit res" where
  "object_to_number kvs =
     (if is_func (map_of kvs ''valueOf'') then None
      else if is_func (map_of kvs ''toString'') then None
      else if map_of kvs ''toString'' = None then ret ()
      else throw (TypeError ''Cannot convert object to primitive value''))"

text \<open>Running computations one after the other, for their errors.\<close>

fun all_done :: "unit res list \<Rightarrow> unit res" where
  "all_done [] = ret ()"
| "all_done (m # ms) = bind m (\<lambda>u. all_done ms)"

text \<open>
  \<open>ToString\<close> of a value, for what can go wrong in it: a symbol throws, an array
  converts its elements in turn (\<open>undefined\<close> and \<open>null\<close> give the empty string).
\<close>

fun stringify :: "jsval \<Rightarrow> unit res" where
  "stringify (VSym s) = throw (TypeError ''Cannot convert a Symbol value to a string'')"
| "stringify (VArr xs) =
     all_done (map (\<lambda>x. if x = VUndefined \<or> x = VNull then ret () else stringify x) xs)"
| "stringify (VObj kvs) = object_to_string kvs"
| "stringify (VNative tag props members) = None"
| "stringify v = ret ()"

text \<open>
  The indices below the number that the string of a value denotes: that of an array is the
  join of its elements with commas, a number only when there is at most one element.
\<close>

fun joined_bound :: "jsval \<Rightarrow> bound res" where
  "joined_bound VUndefined = ret (Below 0)"
| "joined_bound VNull = ret (Below 0)"
| "joined_bound (VBool b) = ret (Below 0)"
| "joined_bound (VNum n) = ret (Below (nat n))"
| "joined_bound (VStr s) = ret (string_bound s)"
| "joined_bound (VSym s) = throw (TypeError ''Cannot convert a Symbol value to a string'')"
| "joined_bound (VFunc f n) = ret (Below 0)"
| "joined_bound (VArr []) = ret (Below 0)"
| "joined_bound (VArr [x]) = joined_bound x"
| "joined_bound (VArr (x # y # ys)) = bind (stringify (VArr (x # y # ys))) (\<lambda>u. ret (Below 0))"
| "joined_bound (VObj kvs) = bind (object_to_string kvs) (\<lambda>u. ret (Below 0))"
| "joined_bound (VNative tag props members) = None"

text \<open>
  \<open>ToNumber\<close> of the length: \<open>undefined\<close> is \<open>NaN\<close>, \<open>null\<close> is 0, a boolean 0 or 1, a symbol
  throws, the source text of a function is not a number, an array converts through its
  string.
\<close>

fun to_bound :: "jsval \<Rightarrow> bound res" where
  "to_bound VUndefined = ret (Below 0)"
| "to_bound VNull = ret (Below 0)"
| "to_bound (VBool b) = ret (Below (if b then 1 else 0))"
| "to_bound (VNum n) = ret (Below (nat n))"
| "to_bound (VStr s) = ret (string_bound s)"
| "to_bound (VSym s) = throw (TypeError ''Cannot convert a Symbol value to a number'')"
| "to_bound (VFunc f n) = ret (Below 0)"
| "to_bound (VArr xs) = joined_bound (VArr xs)"
| "to_bound (VObj kvs) = bind (object_to_number kvs) (\<lambda>u. ret (Below 0))"
| "to_bound (VNative tag props members) = None"

text \<open>
  The loop \<open>for (let i = start; i < value.length; i++)\<close> over all indices, for a length
  that is \<open>Infinity\<close>: it ends only when the item checker rejects or throws.
\<close>

partial_function (option) unbounded_loop ::
    "(jsval \<Rightarrow> ctx \<Rightarrow> checked) \<Rightarrow> (nat \<Rightarrow> jsval) \<Rightarrow> nat \<Rightarrow> ctx \<Rightarrow> (error + bool \<times> ctx) option" where
  "unbounded_loop call at i c =
     (case call (at i) c of
        None \<Rightarrow> None
      | Some (Inl e) \<Rightarrow> Some (Inl e)
      | Some (Inr (ok, c')) \<Rightarrow>
          if \<not> ok then failing (PIndex i) None 1 c' else unbounded_loop call at (Suc i) c')"

declare unbounded_loop.simps [code]

text \<open>
  The closure of \<open>RestType\<close>. With \<open>i\<close> undefined (a start that was never set) the comparison
  is false, after the length has been read and converted.
\<close>

definition rest_loop :: "(jsval \<Rightarrow> ctx \<Rightarrow> checked) \<Rightarrow> nat option \<Rightarrow> jsval \<Rightarrow> ctx \<Rightarrow> checked" where
  "rest_loop call start v c =
     (case js_length v of
        Inl e \<Rightarrow> throw e
      | Inr len \<Rightarrow>
          bind (to_bound len) (\<lambda>b.
            case start of
              None \<Rightarrow> ret (True, c)
            | Some s \<Rightarrow>
                (case b of
                   Below n \<Rightarrow> array_loop call (map (js_at v) [s..<n]) s c
                 | Unbounded \<Rightarrow> unbounded_loop call (js_at v) s c)))"

text \<open>The closure \<open>checker\<close> of \<open>TTuple.getChecker\<close>.\<close>

definition tuple_check :: "(chk \<Rightarrow> jsval \<Rightarrow> ctx \<Rightarrow> checked) \<Rightarrow> chk list \<Rightarrow> jsval \<Rightarrow> ctx \<Rightarrow> checked" where
  "tuple_check call ks v c =
     (if \<not> isArray v then failing PNone (Some ''is not an array'') 0 c
      else tuple_loop call ks (elems v) 0 c)"

text \<open>The closure \<open>checker\<close> of \<open>TParamList.getChecker\<close>.\<close>

definition params_check :: "(chk \<Rightarrow> jsval \<Rightarrow> ctx \<Rightarrow> checked) \<Rightarrow> (string \<times> chk \<times> bool) list \<Rightarrow> jsval \<Rightarrow> ctx \<Rightarrow> checked" where
  "params_check call ps v c =
     (if \<not> isArray v then failing PNone (Some ''is not an array'') 0 c
      else params_loop call ps (elems v) 0 c)"

text \<open>
  Strict mode of \<open>TTuple\<close> and \<open>TParamList\<close>: after \<open>checker\<close>,
  \<open>value.length <= itemCheckers.length ? true : ctx.fail(itemCheckers.length, "is extraneous", 2)\<close>.
\<close>

definition strict_length :: "nat \<Rightarrow> jsval \<Rightarrow> bool \<times> ctx \<Rightarrow> checked" where
  "strict_length n v r =
     (case r of (ok, c) \<Rightarrow>
        if \<not> ok then ret (False, c)
        else if length (elems v) \<le> n then ret (True, c)
        else failing (PIndex n) (Some ''is extraneous'') 2 c)"

fun isFunction :: "jsval \<Rightarrow> bool" where
  "isFunction (VFunc f n) = True"
| "isFunction v = False"

text \<open>The last part of the closure of \<open>TIface\<close>: the keys of the value.\<close>

definition iface_keys :: "(chk \<Rightarrow> jsval \<Rightarrow> ctx \<Rightarrow> checked) \<Rightarrow> store \<Rightarrow> chk option \<Rightarrow> bool \<Rightarrow> nat \<Rightarrow> jsval \<Rightarrow> ctx \<Rightarrow> checked" where
  "iface_keys call st indexTypeChecker strict allowedProps v c =
     (case indexTypeChecker of
        Some ic \<Rightarrow> iface_index (call ic) v (map fst (own_entries v)) c
      | None \<Rightarrow>
          if strict then ret (iface_extraneous (set_has st allowedProps) (map fst (own_entries v)) c)
          else ret (True, c))"

definition iface_check :: "(chk \<Rightarrow> jsval \<Rightarrow> ctx \<Rightarrow> checked) \<Rightarrow> store \<Rightarrow> chk list \<Rightarrow> (string \<times> chk \<times> bool) list \<Rightarrow> bool \<Rightarrow> chk option \<Rightarrow> bool \<Rightarrow> nat \<Rightarrow> jsval \<Rightarrow> ctx \<Rightarrow> checked" where
  "iface_check call st baseCheckers props isPartial indexTypeChecker strict allowedProps v c =
     (if \<not> typeof_object v \<or> v = VNull then failing PNone (Some ''is not an object'') 0 c
      else
        bind (iface_bases call baseCheckers v c) (\<lambda>(ok, c1).
          if \<not> ok then ret (False, c1)
          else bind (iface_props call isPartial props v c1) (\<lambda>(ok, c2).
            if \<not> ok then ret (False, c2)
            else bind (iface_keys call st indexTypeChecker strict allowedProps v c2) (\<lambda>(ok, c3).
              if \<not> ok then ret (False, c3) else ret (\<not> failed c3, c3)))))"

text \<open>
  Calling a closure. The first argument bounds the depth of nested closure calls; a
  JavaScript engine throws a RangeError when the stack is exhausted, here the result is
  \<open>None\<close>.
\<close>

fun run :: "nat \<Rightarrow> store \<Rightarrow> chk \<Rightarrow> jsval \<Rightarrow> ctx \<Rightarrow> checked" where
  "run 0 st k v c = None"
| "run (Suc n) st (CBasic validator message) v c =
     (if validator v then ret (True, c) else failing PNone (Some message) 0 c)"
| "run (Suc n) st (CLiteral val failMsg) v c =
     (if strict_eq v val then ret (True, c) else failing PNone (Some failMsg) (- 1) c)"
| "run (Suc n) st (CEnumLiteral val failMsg) v c =
     (if strict_eq v val then ret (True, c) else failing PNone (Some failMsg) (- 1) c)"
| "run (Suc n) st (CTramp a) v c =
     (case map_of (cells st) a of
        None \<Rightarrow> throw (TypeError ''checkerFunc is not a function'')
      | Some k \<Rightarrow> run n st k v c)"
| "run (Suc n) st (CName k failMsg) v c =
     bind (run n st k v c) (\<lambda>(ok, c'). if ok then ret (True, c') else failing PNone (Some failMsg) 0 c')"
| "run (Suc n) st (CArray k) v c =
     (if \<not> isArray v then failing PNone (Some ''is not an array'') 0 c
      else array_loop (run n st k) (elems v) 0 c)"
| "run (Suc n) st (CRest k start) v c = rest_loop (run n st k) start v c"
| "run (Suc n) st (CTuple ks) v c = tuple_check (run n st) ks v c"
| "run (Suc n) st (CTupleRest ks r) v c =
     bind (tuple_check (run n st) ks v c) (\<lambda>(ok, c'). if ok then run n st r v c' else ret (False, c'))"
| "run (Suc n) st (CTupleStrict ks) v c =
     bind (tuple_check (run n st) ks v c) (strict_length (length ks) v)"
| "run (Suc n) st (CUnion ks failMsg) v c =
     bind (union_loop (run n st) ks v (unionResolver c)) (\<lambda>r.
       case r of None \<Rightarrow> ret (True, c)
       | Some ur \<Rightarrow> failing PNone (Some failMsg) 0 (resolveUnion c ur))"
| "run (Suc n) st (CIntersection ks) v c =
     bind (every_loop (run n st) ks v c) (\<lambda>(ok, c'). ret (ok \<and> \<not> failed c', c'))"
| "run (Suc n) st (CPartial k) v c = (if v = VUndefined then ret (True, c) else run n st k v c)"
| "run (Suc n) st (CEnumType validValues failMsg) v c =
     (if list_ex (strict_eq v) validValues then ret (True, c) else failing PNone (Some failMsg) 0 c)"
| "run (Suc n) st (CIface baseCheckers props isPartial indexTypeChecker strict allowedProps) v c =
     iface_check (run n st) st baseCheckers props isPartial indexTypeChecker strict allowedProps v c"
| "run (Suc n) st (COptional k) v c = (if v = VUndefined then ret (True, c) else run n st k v c)"
| "run (Suc n) st CFunc v c =
     (if isFunction v then ret (True, c) else failing PNone (Some ''is not a function'') 0 c)"
| "run (Suc n) st (CParamList ps) v c = params_check (run n st) ps v c"
| "run (Suc n) st (CParamListStrict ps) v c =
     bind (params_check (run n st) ps v c) (strict_length (length ps) v)"


section \<open>Type nodes\<close>

text \<open>
  The classes that extend \<open>TType\<close>. A \<open>TName\<close> node carries, besides its name, the identity
  of the object: \<open>_checkerBeingBuilt\<close> is a field of the object, and two calls of
  \<open>name("T")\<close> give two objects. \<open>TLiteral value name\<close> keeps the field \<open>name\<close> that the
  constructor computes; \<open>RestType typeSpec _start\<close> and \<open>TTuple ttypes _restType\<close> keep
  their private fields; a property \<open>TProp\<close> or parameter \<open>TParam\<close> is the triple of its
  \<open>name\<close>, \<open>ttype\<close> and \<open>isOpt\<close>; \<open>TFunc params result\<close> holds the parameters of its
  \<open>paramList\<close>.
\<close>

datatype ttype =
    BasicType "jsval \<Rightarrow> bool" string
  | TName nat string
  | TLiteral jsval string
  | TArray ttype
  | RestType "string + ttype" "nat option"
  | TTuple "ttype list" "ttype option"
  | TUnion "ttype list"
  | TIntersection "ttype list"
  | TPartial ttype
  | TEnumType "(string \<times> jsval) list"
  | TEnumLiteral string string
  | TIface "string list" "(string \<times> ttype \<times> bool) list" "ttype option"
  | TOptional ttype
  | TFunc "(string \<times> ttype \<times> bool) list" ttype
  | TParamList "(string \<times> ttype \<times> bool) list"

type_synonym suite = "(string \<times> ttype) list"

fun isBasicType :: "ttype \<Rightarrow> bool" where
  "isBasicType (BasicType validator message) = True"
| "isBasicType t = False"

fun isTName :: "ttype \<Rightarrow> bool" where
  "isTName (TName i name) = True"
| "isTName t = False"

fun isRestType :: "ttype \<Rightarrow> bool" where
  "isRestType (RestType typeSpec start) = True"
| "isRestType t = False"

text \<open>\<open>RestType.setStart\<close>\<close>

fun setStart :: "nat \<Rightarrow> ttype \<Rightarrow> ttype" where
  "setStart start (RestType typeSpec old) = RestType typeSpec (Some start)"
| "setStart start t = t"

text \<open>
  The constructor of \<open>TTuple\<close>: \<open>ttypes[ttypes.length - 1]\<close> is \<open>undefined\<close> for the empty
  list; a last element that is a \<open>RestType\<close> is popped and gets the remaining length as
  its start.
\<close>

definition new_TTuple :: "ttype list \<Rightarrow> ttype" where
  "new_TTuple ttypes =
     (if ttypes \<noteq> [] \<and> isRestType (last ttypes)
      then TTuple (butlast ttypes) (Some (setStart (length (butlast ttypes)) (last ttypes)))
      else TTuple ttypes None)"

text \<open>\<open>rest(typeSpec)\<close>: the start is not set.\<close>

definition rest :: "string + ttype \<Rightarrow> ttype" where
  "rest typeSpec = RestType typeSpec None"

text \<open>\<open>getTypeName\<close>; the name of a \<open>TArray\<close> is set only when that of its element is truthy.\<close>

fun getTypeName :: "ttype \<Rightarrow> string option" where
  "getTypeName (TName i name) = Some name"
| "getTypeName (TLiteral v name) = Some name"
| "getTypeName (TArray t) =
     (case getTypeName t of
        None \<Rightarrow> None
      | Some elementTypeName \<Rightarrow> if elementTypeName \<noteq> [] then Some (elementTypeName @ ''[]'') else None)"
| "getTypeName t = None"

fun join :: "string \<Rightarrow> string list \<Rightarrow> string" where
  "join sep [] = []"
| "join sep [x] = x"
| "join sep (x # y # ys) = x @ sep @ join sep (y # ys)"

text \<open>The constructor of \<open>TUnion\<close> computes \<open>_failMsg\<close>.\<close>

definition union_failMsg :: "ttype list \<Rightarrow> string" where
  "union_failMsg ttypes =
     (let names = filter (\<lambda>n. n \<noteq> []) (map (\<lambda>t. case getTypeName t of None \<Rightarrow> [] | Some n \<Rightarrow> n) ttypes);
          otherTypes = length ttypes - length names
      in if names \<noteq> []
         then ''is none of '' @ join '', '' (if otherTypes > 0 then names @ [show_nat otherTypes @ '' more''] else names)
         else ''is none of '' @ show_nat otherTypes @ '' types'')"

section \<open>Compiling checkers\<close>

text \<open>
  The state that \<open>getChecker\<close> reads and writes: the field \<open>_checkerBeingBuilt\<close> of every
  \<open>TName\<close> object (absent from \<open>building\<close> when it is \<open>undefined\<close>; otherwise the thunk, given
  by the address of the \<open>checkerFunc\<close> variable it captures), the heap of \<open>checkerFunc\<close>
  variables and \<open>allowedProps\<close> sets, and the next free address.
\<close>

record cstate =
  building :: "((nat \<times> string) \<times> nat) list"
  heap :: store
  fresh :: nat

definition empty_cstate :: cstate where
  "empty_cstate = \<lparr>building = [], heap = \<lparr>cells = [], sets = []\<rparr>, fresh = 0\<rparr>"

type_synonym 'a comp = "cstate \<Rightarrow> 'a res \<times> cstate"

definition cret :: "'a \<Rightarrow> 'a comp" where
  "cret x st = (Some (Inr x), st)"

definition cthrow :: "error \<Rightarrow> 'a comp" where
  "cthrow e st = (Some (Inl e), st)"

definition cbind :: "'a comp \<Rightarrow> ('a \<Rightarrow> 'b comp) \<Rightarrow> 'b comp" where
  "cbind m f st =
     (case m st of
        (None, st') \<Rightarrow> (None, st')
      | (Some (Inl e), st') \<Rightarrow> (Some (Inl e), st')
      | (Some (Inr x), st') \<Rightarrow> f x st')"

text \<open>\<open>Array.prototype.map\<close> with a callback that may throw.\<close>

fun cmap :: "('a \<Rightarrow> 'b comp) \<Rightarrow> 'a list \<Rightarrow> 'b list comp" where
  "cmap f [] = cret []"
| "cmap f (x # xs) = cbind (f x) (\<lambda>y. cbind (cmap f xs) (\<lambda>ys. cret (y # ys)))"

text \<open>
  \<open>getNamedType\<close>. The suite is a plain object, so \<open>suite[name]\<close> also finds the
  properties of \<open>Object.prototype\<close>, which are truthy and are not type nodes: the result is
  a type node of the suite (\<open>Some\<close>) or such a value (\<open>None\<close>).
\<close>

definition getNamedType :: "suite \<Rightarrow> string \<Rightarrow> ttype option comp" where
  "getNamedType suite name =
     (case map_of suite name of
        Some ttype \<Rightarrow> cret (Some ttype)
      | None \<Rightarrow>
          if name \<in> set (map fst object_prototype) then cret None
          else cthrow (Error (''Unknown type '' @ name)))"

text \<open>The method call \<open>ttype.getChecker(...)\<close> on the result: a value that is no type node has no such method.\<close>

definition the_type :: "string \<Rightarrow> ttype option \<Rightarrow> ttype comp" where
  "the_type callee named =
     (case named of
        Some ttype \<Rightarrow> cret ttype
      | None \<Rightarrow> cthrow (TypeError (callee @ ''.getChecker is not a function'')))"

text \<open>\<open>new Set()\<close>\<close>

definition new_Set :: "nat comp" where
  "new_Set st = (Some (Inr (fresh st)),
     st\<lparr>heap := (heap st)\<lparr>sets := (fresh st, []) # sets (heap st)\<rparr>, fresh := Suc (fresh st)\<rparr>)"

text \<open>The default value \<open>allowedProps: Set<string> = new Set()\<close> of a parameter.\<close>

definition default_Set :: "nat option \<Rightarrow> nat comp" where
  "default_Set allowedProps = (case allowedProps of None \<Rightarrow> new_Set | Some a \<Rightarrow> cret a)"

text \<open>\<open>this.propSet.forEach((prop) => allowedProps.add(prop))\<close>\<close>

definition add_props :: "nat \<Rightarrow> string list \<Rightarrow> unit comp" where
  "add_props a names st = (Some (Inr ()),
     st\<lparr>heap := (heap st)\<lparr>sets := AList.update a
       (remdups ((case map_of (sets (heap st)) a of None \<Rightarrow> [] | Some ks \<Rightarrow> ks) @ names))
       (sets (heap st))\<rparr>\<rparr>)"

text \<open>
  \<open>isPropRequired\<close> and \<open>isParamRequired\<close>:
  \<open>!prop.isOpt && !propCheckers[i](undefined, testCtx)\<close>, every call in the same \<open>testCtx\<close>.
\<close>

fun probe_required :: "(chk \<Rightarrow> jsval \<Rightarrow> ctx \<Rightarrow> checked) \<Rightarrow> (bool \<times> chk) list \<Rightarrow> ctx \<Rightarrow> bool list res" where
  "probe_required call [] testCtx = ret []"
| "probe_required call ((isOpt, k) # ks) testCtx =
     (if isOpt then bind (probe_required call ks testCtx) (\<lambda>bs. ret (False # bs))
      else bind (call k VUndefined testCtx) (\<lambda>(ok, testCtx').
             bind (probe_required call ks testCtx') (\<lambda>bs. ret ((\<not> ok) # bs))))"

text \<open>A result of closure calls made while compiling, in the current heap.\<close>

definition lift_res :: "(store \<Rightarrow> 'a res) \<Rightarrow> 'a comp" where
  "lift_res m st = (m (heap st), st)"


text \<open>
  \<open>TName.getChecker\<close>: the assignment \<open>this._checkerBeingBuilt = (value, ctx) =>
  checkerFunc!(value, ctx)\<close>, the block \<open>try { ... } finally { this._checkerBeingBuilt =
  undefined; }\<close> and the assignment to the captured variable \<open>checkerFunc\<close>.
\<close>

definition install_thunk :: "nat \<times> string \<Rightarrow> nat comp" where
  "install_thunk node st = (Some (Inr (fresh st)),
     st\<lparr>building := AList.update node (fresh st) (building st), fresh := Suc (fresh st)\<rparr>)"

definition finally_unset :: "nat \<times> string \<Rightarrow> 'a comp \<Rightarrow> 'a comp" where
  "finally_unset node m st =
     (case m st of (r, st') \<Rightarrow> (r, st'\<lparr>building := AList.delete node (building st')\<rparr>))"

definition assign_checkerFunc :: "nat \<Rightarrow> chk \<Rightarrow> unit comp" where
  "assign_checkerFunc a k st = (Some (Inr ()),
     st\<lparr>heap := (heap st)\<lparr>cells := AList.update a k (cells (heap st))\<rparr>\<rparr>)"

text \<open>
  \<open>ttype.members[this.prop]\<close>, read after \<open>hasOwnProperty\<close> has shown the member to be an
  own property. The call \<open>ttype.members.hasOwnProperty(this.prop)\<close> finds the function of
  \<open>Object.prototype\<close> unless the enum has a member of that name, a string or a number.
\<close>

definition member_value :: "(string \<times> jsval) list \<Rightarrow> string \<Rightarrow> jsval" where
  "member_value members k = (case map_of members k of None \<Rightarrow> VUndefined | Some v \<Rightarrow> v)"

text \<open>
  \<open>getChecker(suite, strict, isPartial, allowedProps)\<close> of every class. The first argument
  bounds the depth of nested \<open>getChecker\<close> calls and of the closure calls made while
  compiling. A class whose \<open>getChecker\<close> declares only \<open>(suite, strict)\<close> passes
  \<open>isPartial = false\<close> and no \<open>allowedProps\<close> on.
\<close>

fun getChecker :: "nat \<Rightarrow> suite \<Rightarrow> bool \<Rightarrow> bool \<Rightarrow> nat option \<Rightarrow> ttype \<Rightarrow> chk comp" where
  "getChecker 0 suite strict isPartial allowedProps t = (\<lambda>st. (None, st))"
| "getChecker (Suc n) suite strict isPartial allowedProps (BasicType validator message) =
     cret (CBasic validator message)"
| "getChecker (Suc n) suite strict isPartial allowedProps (TName i name) =
     (\<lambda>st. case map_of (building st) (i, name) of
        Some a \<Rightarrow> cret (CTramp a) st
      | None \<Rightarrow>
          cbind (install_thunk (i, name)) (\<lambda>a.
            cbind (finally_unset (i, name)
                    (cbind (getNamedType suite name) (\<lambda>named.
                       cbind (the_type ''ttype'' named) (\<lambda>ttype.
                         cbind (getChecker n suite strict isPartial allowedProps ttype) (\<lambda>checker.
                           cret (if isBasicType ttype \<or> isTName ttype then checker
                                 else CName checker (''is not a '' @ name)))))))
              (\<lambda>checkerFunc. cbind (assign_checkerFunc a checkerFunc) (\<lambda>u. cret checkerFunc))) st)"
| "getChecker (Suc n) suite strict isPartial allowedProps (TLiteral v name) =
     cret (CLiteral v (''is not '' @ name))"
| "getChecker (Suc n) suite strict isPartial allowedProps (TArray ttype) =
     cbind (getChecker n suite strict False None ttype) (\<lambda>itemChecker. cret (CArray itemChecker))"
| "getChecker (Suc n) suite strict isPartial allowedProps (RestType typeSpec start) =
     cbind (case typeSpec of Inl name \<Rightarrow> getNamedType suite name | Inr t \<Rightarrow> cret (Some t)) (\<lambda>arrType.
       case arrType of
         Some (TArray ttype) \<Rightarrow>
           cbind (getChecker n suite strict False None ttype) (\<lambda>itemChecker. cret (CRest itemChecker start))
       | _ \<Rightarrow> cthrow (Error ''Rest type must be an array''))"
| "getChecker (Suc n) suite strict isPartial allowedProps (TTuple ttypes restType) =
     cbind (cmap (getChecker n suite strict False None) ttypes) (\<lambda>itemCheckers.
       case restType of
         Some r \<Rightarrow>
           cbind (getChecker n suite strict False None r) (\<lambda>restChecker.
             cret (CTupleRest itemCheckers restChecker))
       | None \<Rightarrow> cret (if \<not> strict then CTuple itemCheckers else CTupleStrict itemCheckers))"
| "getChecker (Suc n) suite strict isPartial allowedProps (TUnion ttypes) =
     cbind (cmap (getChecker n suite strict isPartial allowedProps) ttypes) (\<lambda>itemCheckers.
       cret (CUnion itemCheckers (union_failMsg ttypes)))"
| "getChecker (Suc n) suite strict isPartial allowedProps (TIntersection ttypes) =
     cbind (default_Set allowedProps) (\<lambda>a.
       cbind (cmap (getChecker n suite strict isPartial (Some a)) ttypes) (\<lambda>itemCheckers.
         cret (CIntersection itemCheckers)))"
| "getChecker (Suc n) suite strict isPartial allowedProps (TPartial ttype) =
     cbind (getChecker n suite strict True None ttype) (\<lambda>itemChecker. cret (CPartial itemChecker))"
| "getChecker (Suc n) suite strict isPartial allowedProps (TEnumType members) =
     cret (CEnumType (map (member_value members) (map fst members)) ''is not a valid enum value'')"
| "getChecker (Suc n) suite strict isPartial allowedProps (TEnumLiteral enumName prop) =
     cbind (getNamedType suite enumName) (\<lambda>ttype.
       case ttype of
         Some (TEnumType members) \<Rightarrow>
           if map_of members ''hasOwnProperty'' \<noteq> None
           then cthrow (TypeError ''ttype.members.hasOwnProperty is not a function'')
           else if map_of members prop = None
           then cthrow (Error (''Unknown value '' @ enumName @ ''.'' @ prop @ '' used in enumlit''))
           else cret (CEnumLiteral (member_value members prop) (''is not '' @ enumName @ ''.'' @ prop))
       | _ \<Rightarrow> cthrow (Error (''Type '' @ enumName @ '' used in enumlit is not an enum type'')))"
| "getChecker (Suc n) suite strict isPartial allowedProps (TIface bases props indexType) =
     cbind (default_Set allowedProps) (\<lambda>a.
       cbind (add_props a (map fst props)) (\<lambda>u.
         cbind (cmap (\<lambda>b. cbind (getNamedType suite b) (\<lambda>named.
                   cbind (the_type ''getNamedType(...)'' named)
                     (getChecker n suite strict isPartial (Some a)))) bases) (\<lambda>baseCheckers.
           cbind (cmap (\<lambda>(name, ttype, isOpt). getChecker n suite strict isPartial None ttype) props)
             (\<lambda>propCheckers.
             cbind (case indexType of
                      None \<Rightarrow> cret None
                    | Some t \<Rightarrow> cbind (getChecker n suite strict isPartial None t) (\<lambda>k. cret (Some k)))
               (\<lambda>indexTypeChecker.
               cbind (lift_res (\<lambda>h. probe_required (run n h)
                        (zip (map (\<lambda>(name, ttype, isOpt). isOpt) props) propCheckers) (NoopContext False)))
                 (\<lambda>isPropRequired.
                 cret (CIface baseCheckers (zip (map fst props) (zip propCheckers isPropRequired))
                        isPartial indexTypeChecker strict a)))))))"
| "getChecker (Suc n) suite strict isPartial allowedProps (TOptional ttype) =
     cbind (getChecker n suite strict False None ttype) (\<lambda>itemChecker. cret (COptional itemChecker))"
| "getChecker (Suc n) suite strict isPartial allowedProps (TFunc params result) = cret CFunc"
| "getChecker (Suc n) suite strict isPartial allowedProps (TParamList params) =
     cbind (cmap (\<lambda>(name, ttype, isOpt). getChecker n suite strict False None ttype) params)
       (\<lambda>itemCheckers.
       cbind (lift_res (\<lambda>h. probe_required (run n h)
                (zip (map (\<lambda>(name, ttype, isOpt). isOpt) params) itemCheckers) (NoopContext False)))
         (\<lambda>isParamRequired.
         cret ((if \<not> strict then CParamList else CParamListStrict)
                 (zip (map fst params) (zip itemCheckers isParamRequired)))))"


section \<open>The suite of basic types\<close>

fun isNumber :: "jsval \<Rightarrow> bool" where
  "isNumber (VNum n) = True"
| "isNumber v = False"

fun isBoolean :: "jsval \<Rightarrow> bool" where
  "isBoolean (VBool b) = True"
| "isBoolean v = False"

fun isString :: "jsval \<Rightarrow> bool" where
  "isString (VStr s) = True"
| "isString v = False"

fun isSymbol :: "jsval \<Rightarrow> bool" where
  "isSymbol (VSym s) = True"
| "isSymbol v = False"

text \<open>\<open>Object.prototype.toString.call(v)\<close> on an object.\<close>

fun nativeToString :: "jsval \<Rightarrow> string" where
  "nativeToString (VArr xs) = ''[object Array]''"
| "nativeToString (VNative tag props members) =
     ''[object '' @ (if tag = ''Buffer'' then ''Uint8Array'' else tag) @ '']''"
| "nativeToString v = ''[object Object]''"

definition getIsNativeChecker :: "string \<Rightarrow> jsval \<Rightarrow> bool" where
  "getIsNativeChecker tag v = (typeof_object v \<and> v \<noteq> VNull \<and> nativeToString v = tag)"

text \<open>\<open>v instanceof array\<close> for the typed arrays; a Buffer is a Uint8Array.\<close>

fun class_of :: "jsval \<Rightarrow> string option" where
  "class_of (VNative tag props members) = Some tag"
| "class_of v = None"

definition instanceof :: "string \<Rightarrow> jsval \<Rightarrow> bool" where
  "instanceof cls v = (class_of v = Some cls \<or> (cls = ''Uint8Array'' \<and> class_of v = Some ''Buffer''))"

definition typedArrays :: "string list" where
  "typedArrays = [''Int8Array'', ''Uint8Array'', ''Uint8ClampedArray'', ''Int16Array'',
     ''Uint16Array'', ''Int32Array'', ''Uint32Array'', ''Float32Array'', ''Float64Array'',
     ''ArrayBuffer'']"

text \<open>
  \<open>basicTypes\<close>, with the entries added after its declaration. \<open>hasBuffer\<close> is
  \<open>typeof Buffer !== "undefined"\<close>.
\<close>

definition basicTypes :: "bool \<Rightarrow> suite" where
  "basicTypes hasBuffer =
     [(''any'', BasicType (\<lambda>v. True) ''is invalid''),
      (''unknown'', BasicType (\<lambda>v. True) ''is invalid''),
      (''number'', BasicType isNumber ''is not a number''),
      (''object'', BasicType (\<lambda>v. typeof_object v \<and> v \<noteq> VNull) ''is not an object''),
      (''boolean'', BasicType isBoolean ''is not a boolean''),
      (''string'', BasicType isString ''is not a string''),
      (''symbol'', BasicType isSymbol ''is not a symbol''),
      (''void'', BasicType (\<lambda>v. v = VUndefined \<or> v = VNull) ''is not void''),
      (''undefined'', BasicType (\<lambda>v. v = VUndefined) ''is not undefined''),
      (''null'', BasicType (\<lambda>v. v = VNull) ''is not null''),
      (''never'', BasicType (\<lambda>v. False) ''is unexpected''),
      (''Date'', BasicType (getIsNativeChecker ''[object Date]'') ''is not a Date''),
      (''RegExp'', BasicType (getIsNativeChecker ''[object RegExp]'') ''is not a RegExp'')]
     @ (if hasBuffer then [(''Buffer'', BasicType (\<lambda>v. class_of v = Some ''Buffer'') ''is not a Buffer'')] else [])
     @ map (\<lambda>cls. (cls, BasicType (instanceof cls) (''is not a '' @ cls))) typedArrays"

section \<open>The Checker facade\<close>

text \<open>
  A compiled checker function: the closure that \<open>getChecker\<close> returned, with the heap of
  the variables and sets that it and the closures inside it captured.
\<close>

type_synonym CheckerFunc = "chk \<times> store"

text \<open>
  \<open>ttype.getChecker(suite, strict)\<close> as the constructor of \<open>Checker\<close> calls it. Every field
  \<open>_checkerBeingBuilt\<close> is \<open>undefined\<close> when the call starts (the \<open>finally\<close> block of an
  earlier call has reset it), and the call allocates the variables and sets of its
  closures itself.
\<close>

definition compile :: "nat \<Rightarrow> suite \<Rightarrow> bool \<Rightarrow> ttype \<Rightarrow> CheckerFunc res" where
  "compile fuel suite strict ttype =
     (case getChecker fuel suite strict False None ttype empty_cstate of
        (None, st) \<Rightarrow> None
      | (Some (Inl e), st) \<Rightarrow> Some (Inl e)
      | (Some (Inr k), st) \<Rightarrow> Some (Inr (k, heap st)))"

text \<open>Calling a compiled checker function.\<close>

definition call_checker :: "nat \<Rightarrow> CheckerFunc \<Rightarrow> jsval \<Rightarrow> ctx \<Rightarrow> checked" where
  "call_checker fuel checkerFunc v c = run fuel (snd checkerFunc) (fst checkerFunc) v c"

text \<open>The fields of class \<open>Checker\<close>.\<close>

record Checker =
  suite_of :: suite
  ttype_of :: ttype
  path_of :: string
  props_of :: "(string \<times> ttype) list"
  checkerPlain :: CheckerFunc
  checkerStrict :: CheckerFunc

text \<open>The constructor: \<open>this.props.set(p.name, p.ttype)\<close> for an interface, then both compilations.\<close>

fun iface_props_map :: "ttype \<Rightarrow> (string \<times> ttype) list" where
  "iface_props_map (TIface bases props indexType) =
     fold (\<lambda>(name, ttype, isOpt) m. AList.update name ttype m) props []"
| "iface_props_map t = []"

definition new_Checker :: "nat \<Rightarrow> suite \<Rightarrow> ttype \<Rightarrow> string \<Rightarrow> Checker res" where
  "new_Checker fuel suite ttype path =
     bind (compile fuel suite False ttype) (\<lambda>plain.
       bind (compile fuel suite True ttype) (\<lambda>strict.
         ret \<lparr>suite_of = suite, ttype_of = ttype, path_of = path,
              props_of = iface_props_map ttype, checkerPlain = plain, checkerStrict = strict\<rparr>))"

text \<open>\<open>Object.assign(target, source)\<close> on objects given by their entries.\<close>

definition object_assign :: "('k \<times> 'v) list \<Rightarrow> ('k \<times> 'v) list \<Rightarrow> ('k \<times> 'v) list" where
  "object_assign target source = fold (\<lambda>(k, v) m. AList.update k v m) source target"

text \<open>\<open>createCheckers(...typeSuite)\<close>; a checker that fails to compile throws.\<close>

fun collect :: "('a \<Rightarrow> 'b res) \<Rightarrow> (string \<times> 'a) list \<Rightarrow> (string \<times> 'b) list \<Rightarrow> (string \<times> 'b) list res" where
  "collect f [] acc = ret acc"
| "collect f ((name, x) # xs) acc = bind (f x) (\<lambda>y. collect f xs (AList.update name y acc))"

definition createCheckers :: "nat \<Rightarrow> bool \<Rightarrow> suite list \<Rightarrow> (string \<times> Checker) list res" where
  "createCheckers fuel hasBuffer typeSuite =
     (let fullSuite = fold (\<lambda>s acc. object_assign acc s) typeSuite (object_assign [] (basicTypes hasBuffer))
      in collect (\<lambda>t. new_Checker fuel fullSuite t ''value'') (concat typeSuite) [])"

text \<open>\<open>_doCheck\<close> and \<open>_doValidate\<close>, and the six public operations built on them.\<close>

definition doCheck :: "nat \<Rightarrow> Checker \<Rightarrow> CheckerFunc \<Rightarrow> jsval \<Rightarrow> unit res" where
  "doCheck fuel ck checkerFunc v =
     bind (call_checker fuel checkerFunc v (NoopContext False)) (\<lambda>(ok, noopCtx).
       if \<not> ok then
         bind (call_checker fuel checkerFunc v (DetailContext [] [])) (\<lambda>(ok', detailCtx).
           throw (getError (path_of ck) detailCtx))
       else ret ())"

definition doValidate :: "nat \<Rightarrow> Checker \<Rightarrow> CheckerFunc \<Rightarrow> jsval \<Rightarrow> (string \<times> string) list option res" where
  "doValidate fuel ck checkerFunc v =
     bind (call_checker fuel checkerFunc v (NoopContext False)) (\<lambda>(ok, noopCtx).
       if ok then ret None
       else bind (call_checker fuel checkerFunc v (DetailContext [] [])) (\<lambda>(ok', detailCtx).
              ret (Some (getErrorDetails (path_of ck) detailCtx))))"

definition check :: "nat \<Rightarrow> Checker \<Rightarrow> jsval \<Rightarrow> unit res" where
  "check fuel ck v = doCheck fuel ck (checkerPlain ck) v"

definition test :: "nat \<Rightarrow> Checker \<Rightarrow> jsval \<Rightarrow> bool res" where
  "test fuel ck v = bind (call_checker fuel (checkerPlain ck) v (NoopContext False)) (\<lambda>(ok, c). ret ok)"

definition validate :: "nat \<Rightarrow> Checker \<Rightarrow> jsval \<Rightarrow> (string \<times> string) list option res" where
  "validate fuel ck v = doValidate fuel ck (checkerPlain ck) v"

definition strictCheck :: "nat \<Rightarrow> Checker \<Rightarrow> jsval \<Rightarrow> unit res" where
  "strictCheck fuel ck v = doCheck fuel ck (checkerStrict ck) v"

definition strictTest :: "nat \<Rightarrow> Checker \<Rightarrow> jsval \<Rightarrow> bool res" where
  "strictTest fuel ck v = bind (call_checker fuel (checkerStrict ck) v (NoopContext False)) (\<lambda>(ok, c). ret ok)"

definition strictValidate :: "nat \<Rightarrow> Checker \<Rightarrow> jsval \<Rightarrow> (string \<times> string) list option res" where
  "strictValidate fuel ck v = doValidate fuel ck (checkerStrict ck) v"

text \<open>\<open>_getMethod\<close>, \<open>methodArgs\<close> and \<open>getArgs\<close>: a Checker for the parameter list.\<close>

definition getMethod :: "Checker \<Rightarrow> string \<Rightarrow> ttype res" where
  "getMethod ck methodName =
     (case map_of (props_of ck) methodName of
        None \<Rightarrow> throw (Error (''Type has no property '' @ methodName))
      | Some (TFunc params result) \<Rightarrow> ret (TFunc params result)
      | Some t \<Rightarrow> throw (Error (''Property '' @ methodName @ '' is not a method'')))"

definition methodArgs :: "nat \<Rightarrow> Checker \<Rightarrow> string \<Rightarrow> Checker res" where
  "methodArgs fuel ck methodName =
     bind (getMethod ck methodName) (\<lambda>tfunc.
       case tfunc of
         TFunc params result \<Rightarrow> new_Checker fuel (suite_of ck) (TParamList params) ''value''
       | _ \<Rightarrow> throw (Error (''Property '' @ methodName @ '' is not a method'')))"

definition getArgs :: "nat \<Rightarrow> Checker \<Rightarrow> Checker res" where
  "getArgs fuel ck =
     (case ttype_of ck of
        TFunc params result \<Rightarrow> new_Checker fuel (suite_of ck) (TParamList params) ''value''
      | _ \<Rightarrow> throw (Error ''getArgs() applied to non-function''))"

section \<open>Example inputs\<close>

text \<open>The checker that \<open>new Checker(suite, name("number"))\<close> builds over the basic types.\<close>

definition number_checker :: Checker where
  "number_checker = \<lparr>suite_of = basicTypes False, ttype_of = TName 0 ''number'', path_of = ''value'',
     props_of = [], checkerPlain = (CBasic isNumber ''is not a number'', \<lparr>cells = [], sets = []\<rparr>),
     checkerStrict = (CBasic isNumber ''is not a number'', \<lparr>cells = [], sets = []\<rparr>)\<rparr>"



definition number_chk :: chk where
  "number_chk = CBasic isNumber ''is not a number''"

definition string_chk :: chk where
  "string_chk = CBasic isString ''is not a string''"

definition empty_store :: store where
  "empty_store = \<lparr>cells = [], sets = []\<rparr>"

text \<open>\<open>intersection("never", rest(array("any")))\<close>\<close>

definition never_and_rest :: ttype where
  "never_and_rest = TIntersection [TName 0 ''never'', rest (Inr (TArray (TName 1 ''any'')))]"

text \<open>
  A client that builds a Checker for a type node over a suite, as \<open>createCheckers\<close> does for
  every entry, and calls one operation on a value.
\<close>

definition test_type :: "nat \<Rightarrow> suite \<Rightarrow> ttype \<Rightarrow> jsval \<Rightarrow> bool res" where
  "test_type fuel suite t v = bind (new_Checker fuel suite t ''value'') (\<lambda>ck. test fuel ck v)"

definition strictTest_type :: "nat \<Rightarrow> suite \<Rightarrow> ttype \<Rightarrow> jsval \<Rightarrow> bool res" where
  "strictTest_type fuel suite t v = bind (new_Checker fuel suite t ''value'') (\<lambda>ck. strictTest fuel ck v)"

definition validate_type :: "nat \<Rightarrow> suite \<Rightarrow> ttype \<Rightarrow> jsval \<Rightarrow> (string \<times> string) list option res" where
  "validate_type fuel suite t v = bind (new_Checker fuel suite t ''value'') (\<lambda>ck. validate fuel ck v)"

definition strictValidate_type :: "nat \<Rightarrow> suite \<Rightarrow> ttype \<Rightarrow> jsval \<Rightarrow> (string \<times> string) list option res" where
  "strictValidate_type fuel suite t v = bind (new_Checker fuel suite t ''value'') (\<lambda>ck. strictValidate fuel ck v)"

text \<open>
  The recursive type \<open>Tree = {value: number, children: Tree[]}\<close>, and a linked list
  \<open>Node = {next: Node | null}\<close>, each as the only entry of a user suite.
\<close>

definition Tree :: ttype where
  "Tree = TIface [] [(''value'', TName 1 ''number'', False), (''children'', TArray (TName 2 ''Tree''), False)] None"

definition Node :: ttype where
  "Node = TIface [] [(''next'', TUnion [TName 1 ''Node'', TName 2 ''null''], False)] None"

text \<open>
  \<open>union(tuple(tuple("number"), tuple(rest(array("number")), "string")), "any")\<close> and the
  value \<open>[[1, 2], [undefined, "x"]]\<close>.
\<close>

definition nested_tuples :: ttype where
  "nested_tuples = TUnion
     [new_TTuple [new_TTuple [TName 0 ''number''],
                  new_TTuple [rest (Inr (TArray (TName 1 ''number''))), TName 2 ''string'']],
      TName 3 ''any'']"

definition nested_value :: jsval where
  "nested_value = VArr [VArr [VNum 1, VNum 2], VArr [VUndefined, VStr ''x'']]"

section \<open>Notions used in the proofs\<close>

text \<open>The forks that a Detail context keeps.\<close>

fun forks_of :: "ctx \<Rightarrow> ctx list" where
  "forks_of (NoopContext f) = []"
| "forks_of (DetailContext frames forks) = forks"

text \<open>
  In a Noop context the flag after a closure call is determined by the flag before and the
  boolean returned: a result \<open>(ok, c')\<close> from the flag \<open>f\<close> has \<open>c' = NoopContext (f \<or> \<not> ok)\<close>.
\<close>

definition noop_result :: "bool \<Rightarrow> checked \<Rightarrow> bool" where
  "noop_result f r = (\<forall>ok c'. r = Some (Inr (ok, c')) \<longrightarrow> c' = NoopContext (f \<or> \<not> ok))"

text \<open>
  The loops of an intersection and of an interface go through all their items: a result
  is \<open>(true, c')\<close> with \<open>c'\<close> a Noop context that holds a failure if the context before did.
\<close>

definition noop_loop :: "bool \<Rightarrow> checked \<Rightarrow> bool" where
  "noop_loop f r = (\<forall>ok c'. r = Some (Inr (ok, c')) \<longrightarrow> ok \<and> (\<exists>g. c' = NoopContext g \<and> (f \<longrightarrow> g)))"

definition noop_call1 :: "(jsval \<Rightarrow> ctx \<Rightarrow> checked) \<Rightarrow> bool" where
  "noop_call1 call = (\<forall>v f. noop_result f (call v (NoopContext f)))"

definition noop_call :: "(chk \<Rightarrow> jsval \<Rightarrow> ctx \<Rightarrow> checked) \<Rightarrow> bool" where
  "noop_call call = (\<forall>k. noop_call1 (call k))"

text \<open>
  The interface \<open>Person = {name: string, age: number}\<close> over a suite of two basic
  types.
\<close>

definition small_suite :: suite where
  "small_suite = [(''string'', BasicType isString ''is not a string''),
                  (''number'', BasicType isNumber ''is not a number'')]"

definition Person :: ttype where
  "Person = TIface [] [(''name'', TName 1 ''string'', False), (''age'', TName 2 ''number'', False)] None"

text \<open>\<open>tuple(rest(array("number")), "string")\<close>: a Rest that is not the last element.\<close>

definition rest_first :: ttype where
  "rest_first = new_TTuple [rest (Inr (TArray (TName 0 ''number''))), TName 1 ''string'']"

text \<open>\<open>partial(iface(["Date"], {}))\<close>: an interface that extends \<open>Date\<close>.\<close>

definition partial_of_date :: ttype where
  "partial_of_date = TPartial (TIface [''Date''] [] None)"

text \<open>\<open>partial(iface([], {toString: "string"}))\<close>: a property named as one that every object inherits.\<close>

definition partial_of_toString :: ttype where
  "partial_of_toString = TPartial (TIface [] [(''toString'', TName 1 ''string'', False)] None)"

text \<open>A computation of the compiler that leaves every \<open>_checkerBeingBuilt\<close> field as it found it.\<close>

definition keeps_building :: "'a comp \<Rightarrow> bool" where
  "keeps_building m = (\<forall>st r st'. m st = (r, st') \<longrightarrow> building st' = building st)"

text \<open>
  The closure that plain mode compiles where strict mode compiles the given one: the
  strict closures of tuples and parameter lists become the plain ones and the strict flag
  of an interface is cleared.
\<close>

primrec plainify :: "chk \<Rightarrow> chk" where
  "plainify (CBasic validator message) = CBasic validator message"
| "plainify (CLiteral val failMsg) = CLiteral val failMsg"
| "plainify (CEnumLiteral val failMsg) = CEnumLiteral val failMsg"
| "plainify (CTramp a) = CTramp a"
| "plainify (CName k failMsg) = CName (plainify k) failMsg"
| "plainify (CArray k) = CArray (plainify k)"
| "plainify (CRest k start) = CRest (plainify k) start"
| "plainify (CTuple ks) = CTuple (map plainify ks)"
| "plainify (CTupleRest ks r) = CTupleRest (map plainify ks) (plainify r)"
| "plainify (CTupleStrict ks) = CTuple (map plainify ks)"
| "plainify (CUnion ks failMsg) = CUnion (map plainify ks) failMsg"
| "plainify (CIntersection ks) = CIntersection (map plainify ks)"
| "plainify (CPartial k) = CPartial (plainify k)"
| "plainify (CEnumType validValues failMsg) = CEnumType validValues failMsg"
| "plainify (CIface baseCheckers props isPartial indexTypeChecker strict allowedProps) =
     CIface (map plainify baseCheckers) (map (map_prod id (map_prod plainify id)) props) isPartial
       (map_option plainify indexTypeChecker) False allowedProps"
| "plainify (COptional k) = COptional (plainify k)"
| "plainify CFunc = CFunc"
| "plainify (CParamList ps) = CParamList (map (map_prod id (map_prod plainify id)) ps)"
| "plainify (CParamListStrict ps) = CParamList (map (map_prod id (map_prod plainify id)) ps)"

definition plain_store :: "store \<Rightarrow> store" where
  "plain_store h = h\<lparr>cells := map (map_prod id plainify) (cells h)\<rparr>"

definition plain_state :: "cstate \<Rightarrow> cstate" where
  "plain_state st = st\<lparr>heap := plain_store (heap st)\<rparr>"

definition map_res :: "('a \<Rightarrow> 'b) \<Rightarrow> 'a res \<Rightarrow> 'b res" where
  "map_res f r = map_option (map_sum id f) r"

text \<open>
  A computation of the strict compilation and the one of the plain compilation that
  corresponds to it: from corresponding states they end in corresponding states with
  corresponding results.
\<close>

definition plain_comp :: "('a \<Rightarrow> 'b) \<Rightarrow> 'a comp \<Rightarrow> 'b comp \<Rightarrow> bool" where
  "plain_comp f m m' = (\<forall>st. m' (plain_state st) = (case m st of (r, st') \<Rightarrow> (map_res f r, plain_state st')))"

text \<open>
  A strict call and the plain call that corresponds to it: where the strict call accepts
  in a new Noop context, the plain call does not return false.
\<close>

definition not_false :: "checked \<Rightarrow> bool" where
  "not_false r = (case r of Some (Inr (ok, c)) \<Rightarrow> ok | _ \<Rightarrow> True)"

text \<open>A loop that, where it returns, ends in a Noop context that holds no failure.\<close>

definition unfailed :: "checked \<Rightarrow> bool" where
  "unfailed r = (case r of Some (Inr (ok, c)) \<Rightarrow> c = NoopContext False | _ \<Rightarrow> True)"

definition sim_call :: "(chk \<Rightarrow> jsval \<Rightarrow> ctx \<Rightarrow> checked) \<Rightarrow> (chk \<Rightarrow> jsval \<Rightarrow> ctx \<Rightarrow> checked) \<Rightarrow> bool" where
  "sim_call strict_call plain_call =
     (\<forall>k v c. strict_call k v (NoopContext False) = Some (Inr (True, c)) \<longrightarrow>
        not_false (plain_call (plainify k) v (NoopContext False)))"

text \<open>The two unions of \<open>tuple(rest(array("number")), "string")\<close> and \<open>any\<close>.\<close>

definition rest_or_any :: ttype where
  "rest_or_any = TUnion [rest_first, TName 2 ''any'']"

definition any_or_rest :: ttype where
  "any_or_rest = TUnion [TName 2 ''any'', rest_first]"

text \<open>
  The interface \<open>{a: number, c: any & any}\<close>, and the same with its properties in the other
  order.
\<close>

definition probed_second :: ttype where
  "probed_second = TIface [] [(''a'', TName 1 ''number'', False),
      (''c'', TIntersection [TName 2 ''any'', TName 3 ''any''], False)] None"

definition probed_first :: ttype where
  "probed_first = TIface [] [(''c'', TIntersection [TName 2 ''any'', TName 3 ''any''], False),
      (''a'', TName 1 ''number'', False)] None"

text \<open>
  \<open>Base = iface([], {a: "number"})\<close> and \<open>Derived = iface(["Base"], {[indexKey]: "number"})\<close>
  in a suite with the basic types.
\<close>

definition Base :: ttype where
  "Base = TIface [] [(''a'', TName 1 ''number'', False)] None"

definition Derived :: ttype where
  "Derived = TIface [''Base''] [] (Some (TName 2 ''number''))"

definition derived_suite :: suite where
  "derived_suite = basicTypes False @ [(''Base'', Base), (''Derived'', Derived)]"

section \<open>Basic facts\<close>

lemma bind_simps [simp]:
  "bind None f = None"
  "bind (Some (Inl e)) f = Some (Inl e)"
  "bind (Some (Inr x)) f = f x"
  "bind (ret x) f = f x"
  "bind (throw e) f = throw e"
  by (simp_all add: bind_def ret_def throw_def)

lemma bind_eq_ret:
  "bind m f = Some (Inr y) \<longleftrightarrow> (\<exists>x. m = Some (Inr x) \<and> f x = Some (Inr y))"
  by (auto simp: bind_def split: option.splits sum.splits)

section \<open>The facade agrees with itself\<close>

lemma doValidate_ok:
  "call_checker fuel k v (NoopContext False) = Some (Inr (True, c)) \<Longrightarrow> doValidate fuel ck k v = ret None"
  by (simp add: doValidate_def)

lemma doCheck_ok:
  "call_checker fuel k v (NoopContext False) = Some (Inr (True, c)) \<Longrightarrow> doCheck fuel ck k v = ret ()"
  by (simp add: doCheck_def)

lemma bind_ret_True:
  "bind m (\<lambda>(ok, c). ret ok) = ret True \<Longrightarrow> \<exists>c. m = Some (Inr (True, c))"
  by (cases m) (auto simp: bind_def ret_def split: sum.splits)

text \<open>
  C1 (soundness of the fast path). For every checker and every value: if \<open>test(v)\<close> returns
  true then \<open>validate(v)\<close> returns null and \<open>check(v)\<close> returns without throwing, and the
  same holds for \<open>strictTest\<close>, \<open>strictValidate\<close> and \<open>strictCheck\<close>: \<open>_doValidate\<close> and
  \<open>_doCheck\<close> first call the same closure in a new Noop context, as \<open>test\<close> does.
\<close>

theorem test_sound:
  "(test fuel ck v = ret True \<longrightarrow> validate fuel ck v = ret None \<and> check fuel ck v = ret ()) \<and>
   (strictTest fuel ck v = ret True \<longrightarrow> strictValidate fuel ck v = ret None \<and> strictCheck fuel ck v = ret ())"
  unfolding test_def strictTest_def validate_def strictValidate_def check_def strictCheck_def
  by (blast dest: bind_ret_True intro: doValidate_ok doCheck_ok)

theorem test_sound_witness:
  "test 1 number_checker (VNum 7) = ret True \<and> validate 1 number_checker (VNum 7) = ret None
   \<and> check 1 number_checker (VNum 7) = ret ()
   \<and> strictTest 1 number_checker (VNum 7) = ret True \<and> strictValidate 1 number_checker (VNum 7) = ret None
   \<and> strictCheck 1 number_checker (VNum 7) = ret ()"
  using test_sound [of 1 number_checker "VNum 7"]
  by (simp add: test_def strictTest_def number_checker_def ret_def call_checker_def)

lemmas compile_defs = cbind_def cret_def cthrow_def default_Set_def new_Set_def add_props_def
  getNamedType_def install_thunk_def finally_unset_def assign_checkerFunc_def lift_res_def
  empty_cstate_def member_value_def the_type_def

section \<open>Intersections\<close>

lemma fork_completeFork [simp]: "fork (snd (completeFork c child)) = fork c"
  by (cases c) simp_all

lemma fst_completeFork [simp]: "fst (completeFork c child) = True"
  by (cases c) simp_all





lemma cbind_ok:
  "cbind m f st = (Some (Inr y), st') \<Longrightarrow> \<exists>x st1. m st = (Some (Inr x), st1) \<and> f x st1 = (Some (Inr y), st')"
  by (auto simp: cbind_def split: prod.splits option.splits sum.splits)

lemma cret_ok: "cret x st = (Some (Inr y), st') \<longleftrightarrow> x = y \<and> st = st'"
  by (auto simp: cret_def)

lemma lift_res_ok: "lift_res m st = (Some (Inr y), st') \<longleftrightarrow> m (heap st) = Some (Inr y) \<and> st' = st"
  by (auto simp: lift_res_def)

lemma cmap_length: "cmap f xs st = (Some (Inr ys), st') \<Longrightarrow> length ys = length xs"
proof (induction xs arbitrary: ys st st')
  case Nil
  then show ?case by (simp add: cret_def)
next
  case (Cons x xs)
  from Cons.prems obtain y st1 zs st2 where "cmap f xs st1 = (Some (Inr zs), st2)" and "ys = y # zs"
    by (auto dest!: cbind_ok simp: cret_ok)
  with Cons.IH show ?case by auto
qed



section \<open>Unions\<close>

lemma union_loop_Noop:
  assumes "\<forall>k\<in>set ks. call k v (NoopContext False) = ret (ok k, child k)"
  shows "union_loop call ks v (UnionResolver True cs) =
           ret (if \<exists>k\<in>set ks. ok k then None else Some (UnionResolver True (cs @ map child ks)))"
  using assms by (induction ks arbitrary: cs) auto

lemma run_union_Noop:
  assumes "\<forall>k\<in>set ks. run n st k v (NoopContext False) = ret (ok k, child k)"
  shows "run (Suc n) st (CUnion ks m) v (NoopContext f) =
           ret (if \<exists>k\<in>set ks. ok k then (True, NoopContext f) else (False, NoopContext True))"
  using union_loop_Noop [where call = "run n st" and ks = ks and v = v and ok = ok and child = child and cs = "[]"] assms
  by (simp add: failing_def)

text \<open>
  C9 (union commutativity). The closure of a union stops at the first alternative that
  accepts, so an alternative that throws is reached in one order and not in the other. With
  \<open>A = tuple(rest(array("number")), "string")\<close>, \<open>B = any\<close> and the value \<open>[undefined, "x"]\<close>,
  the closure of \<open>A\<close> calls the Rest closure on \<open>value[0]\<close>, which is \<open>undefined\<close>, and
  reading \<open>value.length\<close> throws a TypeError: \<open>Union(A, B).test(v)\<close> throws, while
  \<open>Union(B, A).test(v)\<close> returns true at the first alternative and never calls \<open>A\<close>.
\<close>

theorem union_order_throws:
  "test_type 5 (basicTypes False) rest_or_any (VArr [VUndefined, VStr ''x''])
     = throw (TypeError ''Cannot read properties of undefined'')
   \<and> test_type 5 (basicTypes False) any_or_rest (VArr [VUndefined, VStr ''x'']) = ret True"
  by code_simp

text \<open>
  Where both alternatives return on the value, the order plays no part: the closures of
  \<open>Union(A, B)\<close> and \<open>Union(B, A)\<close> over the closures \<open>a\<close> and \<open>b\<close> of the alternatives, called
  in the Noop context of \<open>test\<close>, return the same result, true iff one of the alternatives
  accepts; the failure messages \<open>m\<close> and \<open>m'\<close> of the two unions play no part.
\<close>

lemma union_commutes:
  assumes "run n st a v (NoopContext False) = ret (oka, ca)"
    and "run n st b v (NoopContext False) = ret (okb, cb)"
  shows "run (Suc n) st (CUnion [a, b] m) v (NoopContext f) = run (Suc n) st (CUnion [b, a] m') v (NoopContext f)
     \<and> run (Suc n) st (CUnion [a, b] m) v (NoopContext f)
         = ret (if oka \<or> okb then (True, NoopContext f) else (False, NoopContext True))"
proof -
  have 1: "\<forall>k\<in>set [a, b]. run n st k v (NoopContext False) = ret (fst (the_res k), snd (the_res k))"
    if "the_res = (\<lambda>k. if k = a then (oka, ca) else (okb, cb))" for the_res
    using assms that by auto
  have 2: "\<forall>k\<in>set [b, a]. run n st k v (NoopContext False) = ret (fst (the_res k), snd (the_res k))"
    if "the_res = (\<lambda>k. if k = a then (oka, ca) else (okb, cb))" for the_res
    using assms that by auto
  show ?thesis
    using run_union_Noop [OF 1 [OF refl], of m f] run_union_Noop [OF 2 [OF refl], of m' f] assms
    by (auto simp: ret_def)
qed

lemma union_commutes_example:
  "run 2 empty_store (CUnion [number_chk, string_chk] ''is none of number, string'') (VStr ''x'') (NoopContext False)
     = run 2 empty_store (CUnion [string_chk, number_chk] ''is none of string, number'') (VStr ''x'') (NoopContext False)
   \<and> run 2 empty_store (CUnion [number_chk, string_chk] ''is none of number, string'') (VStr ''x'') (NoopContext False)
     = ret (True, NoopContext False)"
proof -
  have a: "run 1 empty_store number_chk (VStr ''x'') (NoopContext False) = ret (False, NoopContext True)"
    by (simp add: number_chk_def failing_def)
  have b: "run 1 empty_store string_chk (VStr ''x'') (NoopContext False) = ret (True, NoopContext False)"
    by (simp add: string_chk_def)
  show ?thesis
    using union_commutes [OF a b, of "''is none of number, string''" False "''is none of string, number''"]
    by (simp add: numeral_2_eq_2 number_chk_def string_chk_def failing_def)
qed

section \<open>Parameter lists\<close>

lemma params_loop_cong:
  "(\<forall>j. i \<le> j \<and> j < i + length ps \<longrightarrow> arr_index xs j = arr_index ys j) \<Longrightarrow>
   params_loop call ps xs i c = params_loop call ps ys i c"
proof (induction ps arbitrary: i c)
  case Nil then show ?case by simp
next
  case (Cons p ps)
  obtain name pc req where p: "p = (name, pc, req)" by (cases p) auto
  have h: "arr_index xs i = arr_index ys i" using Cons.prems by simp
  have t: "\<And>c. params_loop call ps xs (Suc i) c = params_loop call ps ys (Suc i) c"
    using Cons.prems by (intro Cons.IH) auto
  show ?case by (simp add: p h t cong: if_cong)
qed

lemma params_loop_append:
  "params_loop call (pre @ post) xs i c =
     bind (params_loop call pre xs i c) (\<lambda>(ok, c').
       if ok then params_loop call post xs (i + length pre) c' else ret (False, c'))"
proof (induction pre arbitrary: i c)
  case Nil then show ?case by simp
next
  case (Cons p pre)
  obtain name pc req where p: "p = (name, pc, req)" by (cases p) auto
  show ?case
    by (cases "call pc (arr_index xs i) c")
       (auto simp: p Cons.IH failing_def bind_def ret_def split: sum.splits cong: if_cong)
qed

lemma arr_index_take: "j < k \<Longrightarrow> arr_index (take k xs) j = arr_index xs j"
  by (simp add: arr_index_def)

text \<open>
  C10 (an undefined argument is a missing argument). Take a parameter list whose parameter
  \<open>name\<close> is required and an argument array \<open>xs\<close> whose parameters before \<open>name\<close> pass. If
  the argument at the position of \<open>name\<close> is \<open>undefined\<close>, whether the array carries the
  value \<open>undefined\<close> there or ends before it, then the closure of the parameter list, plain
  or strict, returns false after \<open>fail(name, "is missing", 1)\<close>; the result is the same as
  for the array cut before that position, and it does not depend on the closure \<open>pc\<close> of the
  parameter's own type, which is not called.
\<close>

theorem paramlist_undefined_is_missing:
  assumes "arr_index xs (length pre) = VUndefined"
    and "params_loop (run n st) pre xs 0 c = ret (True, c')"
  shows "run (Suc n) st (CParamList (pre @ (name, pc, True) # post)) (VArr xs) c
           = ret (False, fail (PName name) (Some ''is missing'') 1 c')
     \<and> run (Suc n) st (CParamListStrict (pre @ (name, pc, True) # post)) (VArr xs) c
           = ret (False, fail (PName name) (Some ''is missing'') 1 c')
     \<and> run (Suc n) st (CParamList (pre @ (name, pc, True) # post)) (VArr (take (length pre) xs)) c
           = run (Suc n) st (CParamList (pre @ (name, pc, True) # post)) (VArr xs) c
     \<and> run (Suc n) st (CParamListStrict (pre @ (name, pc, True) # post)) (VArr (take (length pre) xs)) c
           = run (Suc n) st (CParamListStrict (pre @ (name, pc, True) # post)) (VArr xs) c"
proof -
  let ?ps = "pre @ (name, pc, True) # post"
  have a: "params_loop (run n st) ?ps xs 0 c = ret (False, fail (PName name) (Some ''is missing'') 1 c')"
    using assms by (simp add: params_loop_append failing_def)
  have b: "arr_index (take (length pre) xs) (length pre) = VUndefined"
    by (simp add: arr_index_def)
  have "params_loop (run n st) pre (take (length pre) xs) 0 c = params_loop (run n st) pre xs 0 c"
    by (rule params_loop_cong) (simp add: arr_index_take)
  then have c: "params_loop (run n st) ?ps (take (length pre) xs) 0 c
      = ret (False, fail (PName name) (Some ''is missing'') 1 c')"
    using assms(2) b by (simp add: params_loop_append failing_def)
  show ?thesis
    using a c by (simp add: params_check_def strict_length_def)
qed

theorem paramlist_undefined_is_missing_witness:
  "run 2 empty_store (CParamList [(''s'', string_chk, True), (''pos'', number_chk, True)])
       (VArr [VStr ''foo'', VUndefined]) (DetailContext [] [])
     = ret (False, DetailContext [(PName ''pos'', Some ''is missing'', 1)] [])
   \<and> run 2 empty_store (CParamList [(''s'', string_chk, True), (''pos'', number_chk, True)])
       (VArr [VStr ''foo'']) (DetailContext [] [])
     = ret (False, DetailContext [(PName ''pos'', Some ''is missing'', 1)] [])"
proof -
  have a: "arr_index [VStr ''foo'', VUndefined] (length [(''s'', string_chk, True)]) = VUndefined"
    by (simp add: arr_index_def)
  have b: "params_loop (run 1 empty_store) [(''s'', string_chk, True)] [VStr ''foo'', VUndefined] 0 (DetailContext [] [])
             = ret (True, DetailContext [] [])"
    by (simp add: arr_index_def string_chk_def)
  show ?thesis
    using paramlist_undefined_is_missing [OF a b, of "''pos''" number_chk "[]"]
    by (simp add: numeral_2_eq_2)
qed

section \<open>Closure calls in a Noop context\<close>

lemma noop_resultI:
  "(\<And>ok c'. r = Some (Inr (ok, c')) \<Longrightarrow> c' = NoopContext (f \<or> \<not> ok)) \<Longrightarrow> noop_result f r"
  by (simp add: noop_result_def)

lemma noop_resultD:
  "noop_result f r \<Longrightarrow> r = Some (Inr (ok, c')) \<Longrightarrow> c' = NoopContext (f \<or> \<not> ok)"
  by (simp add: noop_result_def)

lemma noop_call1D:
  "noop_call1 call \<Longrightarrow> call v (NoopContext f) = Some (Inr (ok, c')) \<Longrightarrow> c' = NoopContext (f \<or> \<not> ok)"
  by (simp add: noop_call1_def noop_result_def)

lemma noop_callD:
  "noop_call call \<Longrightarrow> call k v (NoopContext f) = Some (Inr (ok, c')) \<Longrightarrow> c' = NoopContext (f \<or> \<not> ok)"
  by (simp add: noop_call_def noop_call1_def noop_result_def)

lemma noop_result_ret [simp]: "noop_result f (ret (ok, c)) \<longleftrightarrow> c = NoopContext (f \<or> \<not> ok)"
  by (auto simp: noop_result_def ret_def)

lemma noop_result_failing [simp]: "noop_result f (failing k m s (NoopContext f'))"
  by (simp add: failing_def)

lemma noop_result_None [simp]: "noop_result f None"
  by (simp add: noop_result_def)

lemma noop_result_throw [simp]: "noop_result f (throw e)"
  by (simp add: noop_result_def throw_def)

lemma noop_result_bind:
  assumes "noop_result f0 m"
    and "\<And>ok. noop_result f (g (ok, NoopContext (f0 \<or> \<not> ok)))"
  shows "noop_result f (bind m g)"
proof (rule noop_resultI)
  fix ok c' assume "bind m g = Some (Inr (ok, c'))"
  then obtain x where x: "m = Some (Inr x)" and g: "g x = Some (Inr (ok, c'))"
    by (auto simp: bind_eq_ret)
  obtain ok1 c1 where x1: "x = (ok1, c1)" by (cases x)
  have c1: "c1 = NoopContext (f0 \<or> \<not> ok1)" using assms(1) x x1 by (auto dest: noop_resultD)
  show "c' = NoopContext (f \<or> \<not> ok)"
    using assms(2) [of ok1] x1 c1 g by (auto dest: noop_resultD)
qed

lemma noop_call1_result: "noop_call1 call \<Longrightarrow> noop_result f (call v (NoopContext f))"
  by (simp add: noop_call1_def)

lemma noop_call_result: "noop_call call \<Longrightarrow> noop_result f (call k v (NoopContext f))"
  by (simp add: noop_call_def noop_call1_def)

lemma noop_call_call1: "noop_call call \<Longrightarrow> noop_call1 (call k)"
  by (simp add: noop_call_def)

lemma array_loop_noop:
  assumes "noop_call1 call"
  shows "noop_result f (array_loop call xs i (NoopContext f))"
proof (induction xs arbitrary: i f)
  case Nil show ?case by simp
next
  case (Cons x xs)
  show ?case
    using Cons.IH
    by (auto intro!: noop_result_bind noop_call1_result [OF assms])
qed

lemma unbounded_loop_False:
  assumes "unbounded_loop call at i c = Some y"
  shows "\<forall>ok c'. y = Inr (ok, c') \<longrightarrow> \<not> ok"
proof (rule unbounded_loop.raw_induct [where P = "\<lambda>call at i c y. \<forall>ok c'. y = Inr (ok, c') \<longrightarrow> \<not> ok", OF _ assms],
    goal_cases)
  case (1 loop call at i c y)
  show ?case
  proof (intro allI impI)
    fix ok c'
    assume y: "y = Inr (ok, c')"
    from 1(2) y obtain ok1 c1 where
      rest: "(if \<not> ok1 then failing (PIndex i) None 1 c1 else loop call at (Suc i) c1) = Some y"
      by (auto split: option.splits sum.splits)
    show "\<not> ok"
    proof (cases ok1)
      case True
      with rest have "loop call at (Suc i) c1 = Some y" by simp
      from 1(1) [OF this] y show ?thesis by simp
    next
      case False
      with rest y show ?thesis by (auto simp: failing_def ret_def)
    qed
  qed
qed

lemma unbounded_loop_noop_aux:
  assumes "unbounded_loop call at i c = Some y"
  shows "noop_call1 call \<longrightarrow> (\<forall>f ok c'. c = NoopContext f \<and> y = Inr (ok, c') \<longrightarrow> c' = NoopContext (f \<or> \<not> ok))"
proof (rule unbounded_loop.raw_induct [where P = "\<lambda>call at i c y. noop_call1 call \<longrightarrow>
    (\<forall>f ok c'. c = NoopContext f \<and> y = Inr (ok, c') \<longrightarrow> c' = NoopContext (f \<or> \<not> ok))", OF _ assms], goal_cases)
  case (1 loop call at i c y)
  show ?case
  proof (intro impI allI)
    fix f ok c'
    assume n: "noop_call1 call" and "c = NoopContext f \<and> y = Inr (ok, c')"
    then have c: "c = NoopContext f" and y: "y = Inr (ok, c')" by auto
    from 1(2) y obtain ok1 c1 where r: "call (at i) c = Some (Inr (ok1, c1))"
      and rest: "(if \<not> ok1 then failing (PIndex i) None 1 c1 else loop call at (Suc i) c1) = Some y"
      by (auto split: option.splits sum.splits)
    from n r c have c1: "c1 = NoopContext (f \<or> \<not> ok1)"
      by (auto simp: noop_call1_def noop_result_def)
    show "c' = NoopContext (f \<or> \<not> ok)"
    proof (cases ok1)
      case True
      with rest have "loop call at (Suc i) c1 = Some y" by simp
      from 1(1) [OF this] n c1 True y show ?thesis by simp
    next
      case False
      with rest c1 y show ?thesis by (auto simp: failing_def ret_def)
    qed
  qed
qed

lemma unbounded_loop_noop:
  assumes "noop_call1 call"
  shows "noop_result f (unbounded_loop call at i (NoopContext f))"
  using unbounded_loop_noop_aux [of call at i "NoopContext f"] assms
  by (auto simp: noop_result_def)

lemma rest_loop_noop:
  assumes "noop_call1 call"
  shows "noop_result f (rest_loop call start v (NoopContext f))"
proof (cases "js_length v")
  case (Inl e)
  then show ?thesis by (simp add: rest_loop_def)
next
  case (Inr len)
  have "noop_result f (case start of None \<Rightarrow> ret (True, NoopContext f)
          | Some s \<Rightarrow> (case b of Below n \<Rightarrow> array_loop call (map (js_at v) [s..<n]) s (NoopContext f)
                        | Unbounded \<Rightarrow> unbounded_loop call (js_at v) s (NoopContext f)))" for b
    using array_loop_noop [OF assms] unbounded_loop_noop [OF assms]
    by (auto split: option.splits bound.splits)
  then have "noop_result f (bind (to_bound len) (\<lambda>b. case start of None \<Rightarrow> ret (True, NoopContext f)
          | Some s \<Rightarrow> (case b of Below n \<Rightarrow> array_loop call (map (js_at v) [s..<n]) s (NoopContext f)
                        | Unbounded \<Rightarrow> unbounded_loop call (js_at v) s (NoopContext f))))"
    by (cases "to_bound len") (auto simp: bind_def noop_result_def split: sum.splits)
  with Inr show ?thesis by (simp add: rest_loop_def)
qed

lemma tuple_loop_noop:
  assumes "noop_call call"
  shows "noop_result f (tuple_loop call ks xs i (NoopContext f))"
proof (induction ks arbitrary: i f)
  case Nil show ?case by simp
next
  case (Cons k ks)
  show ?case
    using Cons.IH
    by (auto intro!: noop_result_bind noop_call_result [OF assms])
qed

lemma tuple_check_noop:
  "noop_call call \<Longrightarrow> noop_result f (tuple_check call ks v (NoopContext f))"
  by (simp add: tuple_check_def tuple_loop_noop)

lemma params_loop_noop:
  assumes "noop_call call"
  shows "noop_result f (params_loop call ps xs i (NoopContext f))"
proof (induction ps arbitrary: i f)
  case Nil show ?case by simp
next
  case (Cons p ps)
  obtain name pc req where p: "p = (name, pc, req)" by (cases p) auto
  show ?case
    using Cons.IH
    by (auto simp: p intro!: noop_result_bind noop_call_result [OF assms])
qed

lemma params_check_noop:
  "noop_call call \<Longrightarrow> noop_result f (params_check call ps v (NoopContext f))"
  by (simp add: params_check_def params_loop_noop)

lemma strict_length_noop:
  "noop_result f (strict_length n v (ok, NoopContext (f \<or> \<not> ok)))"
  by (simp add: strict_length_def)

lemma noop_loopI:
  "(\<And>ok c'. r = Some (Inr (ok, c')) \<Longrightarrow> ok \<and> (\<exists>g. c' = NoopContext g \<and> (f \<longrightarrow> g))) \<Longrightarrow> noop_loop f r"
  unfolding noop_loop_def by blast

lemma noop_loopD:
  "noop_loop f r \<Longrightarrow> r = Some (Inr (ok, c')) \<Longrightarrow> ok \<and> (\<exists>g. c' = NoopContext g \<and> (f \<longrightarrow> g))"
  by (simp add: noop_loop_def)

lemma noop_loop_ret [simp]: "noop_loop f (ret (True, NoopContext f))"
  by (simp add: noop_loop_def ret_def)

lemma noop_loop_weaken: "noop_loop g r \<Longrightarrow> (f \<longrightarrow> g) \<Longrightarrow> noop_loop f r"
  by (auto simp: noop_loop_def)

lemma fork_step_noop:
  assumes "noop_result False m"
    and "\<And>g. noop_loop g (loop (NoopContext g))"
    and "\<And>ok. \<exists>b. h ok (NoopContext (\<not> ok)) = NoopContext b"
  shows "noop_loop f (bind m (\<lambda>(ok, child).
           case completeFork (NoopContext f) (h ok child) of
             (True, c') \<Rightarrow> loop c'
           | (False, c') \<Rightarrow> ret (False, c')))"
proof (rule noop_loopI)
  fix ok c'
  assume "bind m (\<lambda>(ok, child).
           case completeFork (NoopContext f) (h ok child) of
             (True, c') \<Rightarrow> loop c'
           | (False, c') \<Rightarrow> ret (False, c')) = Some (Inr (ok, c'))"
  then obtain ok1 child where m: "m = Some (Inr (ok1, child))"
    and r: "(case completeFork (NoopContext f) (h ok1 child) of
             (True, c') \<Rightarrow> loop c'
           | (False, c') \<Rightarrow> ret (False, c')) = Some (Inr (ok, c'))"
    by (auto simp: bind_eq_ret)
  from assms(1) m have "child = NoopContext (\<not> ok1)" by (auto dest: noop_resultD)
  with assms(3) [of ok1] obtain b where "h ok1 child = NoopContext b" by auto
  with r have "loop (NoopContext (f \<or> b)) = Some (Inr (ok, c'))" by simp
  from noop_loopD [OF assms(2) this] show "ok \<and> (\<exists>g. c' = NoopContext g \<and> (f \<longrightarrow> g))" by auto
qed

lemma every_loop_noop:
  assumes "noop_call call"
  shows "noop_loop f (every_loop call ks v (NoopContext f))"
proof (induction ks arbitrary: f)
  case Nil show ?case by simp
next
  case (Cons k ks)
  have "noop_loop f (bind (call k v (NoopContext False)) (\<lambda>(ok, child).
           case completeFork (NoopContext f) child of
             (True, c') \<Rightarrow> every_loop call ks v c'
           | (False, c') \<Rightarrow> ret (False, c')))"
    by (rule fork_step_noop [where loop = "every_loop call ks v" and h = "\<lambda>ok child. child"])
       (simp_all add: noop_call_result [OF assms] Cons.IH)
  then show ?case by simp
qed

lemma iface_bases_noop:
  assumes "noop_call call"
  shows "noop_loop f (iface_bases call ks v (NoopContext f))"
proof (induction ks arbitrary: f)
  case Nil show ?case by simp
next
  case (Cons k ks)
  have "noop_loop f (bind (call k v (NoopContext False)) (\<lambda>(ok, child).
           case completeFork (NoopContext f) child of
             (True, c') \<Rightarrow> iface_bases call ks v c'
           | (False, c') \<Rightarrow> ret (False, c')))"
    by (rule fork_step_noop [where loop = "iface_bases call ks v" and h = "\<lambda>ok child. child"])
       (simp_all add: noop_call_result [OF assms] Cons.IH)
  then show ?case by simp
qed

lemma iface_props_noop:
  assumes "noop_call call"
  shows "noop_loop f (iface_props call isPartial ps v (NoopContext f))"
proof (induction ps arbitrary: f)
  case Nil show ?case by simp
next
  case (Cons p ps)
  obtain name pc req where p: "p = (name, pc, req)" by (cases p) auto
  have 1: "noop_loop f (bind (call pc (get_member v name) (NoopContext False)) (\<lambda>(ok, child).
           case completeFork (NoopContext f) (if \<not> ok then fail (PName name) None 1 child else child) of
             (True, c') \<Rightarrow> iface_props call isPartial ps v c'
           | (False, c') \<Rightarrow> ret (False, c')))"
    by (rule fork_step_noop [where loop = "iface_props call isPartial ps v"
          and h = "\<lambda>ok child. if \<not> ok then fail (PName name) None 1 child else child"])
       (auto simp: noop_call_result [OF assms] Cons.IH)
  have 2: "noop_loop f (iface_props call isPartial ps v (NoopContext True))"
    by (rule noop_loop_weaken [OF Cons.IH]) simp
  show ?case
    using 1 2 Cons.IH [of f] by (auto simp: p)
qed

lemma iface_index_noop:
  assumes "noop_call1 call"
  shows "noop_loop f (iface_index call v ks (NoopContext f))"
proof (induction ks arbitrary: f)
  case Nil show ?case by simp
next
  case (Cons k ks)
  have "noop_loop f (bind (call (get_member v k) (NoopContext False)) (\<lambda>(ok, child).
           case completeFork (NoopContext f) (if \<not> ok then fail (PName k) None 1 child else child) of
             (True, c') \<Rightarrow> iface_index call v ks c'
           | (False, c') \<Rightarrow> ret (False, c')))"
    by (rule fork_step_noop [where loop = "iface_index call v ks"
          and h = "\<lambda>ok child. if \<not> ok then fail (PName k) None 1 child else child"])
       (auto simp: noop_call1_result [OF assms] Cons.IH)
  then show ?case by simp
qed

lemma iface_extraneous_noop:
  "noop_loop f (ret (iface_extraneous allowed ks (NoopContext f)))"
proof (induction ks arbitrary: f)
  case Nil show ?case by simp
next
  case (Cons k ks)
  have "noop_loop f (ret (iface_extraneous allowed ks (NoopContext True)))"
    by (rule noop_loop_weaken [OF Cons.IH]) simp
  with Cons.IH [of f] show ?case by simp
qed

lemma iface_keys_noop:
  assumes "noop_call call"
  shows "noop_loop f (iface_keys call st idx strict ap v (NoopContext f))"
  using iface_index_noop [OF noop_call_call1 [OF assms]] iface_extraneous_noop
  by (auto simp: iface_keys_def split: option.splits)

lemma noop_loop_bind:
  assumes "noop_loop f m" and "\<And>g. f \<longrightarrow> g \<Longrightarrow> noop_loop g (k (NoopContext g))"
  shows "noop_loop f (bind m (\<lambda>(ok, c). if \<not> ok then ret (False, c) else k c))"
proof (rule noop_loopI)
  fix ok c'
  assume "bind m (\<lambda>(ok, c). if \<not> ok then ret (False, c) else k c) = Some (Inr (ok, c'))"
  then obtain ok1 c1 where m: "m = Some (Inr (ok1, c1))"
    and r: "(if \<not> ok1 then ret (False, c1) else k c1) = Some (Inr (ok, c'))"
    by (auto simp: bind_eq_ret)
  from noop_loopD [OF assms(1) m] obtain g where g: "ok1" "c1 = NoopContext g" "f \<longrightarrow> g" by auto
  with r have "k (NoopContext g) = Some (Inr (ok, c'))" by simp
  from noop_loopD [OF assms(2) [OF g(3)] this] g(3)
  show "ok \<and> (\<exists>g. c' = NoopContext g \<and> (f \<longrightarrow> g))" by auto
qed

lemma noop_result_of_loop:
  assumes "noop_loop f m"
  shows "noop_result f (bind m (\<lambda>(ok, c). ret (ok \<and> \<not> failed c, c)))"
proof (rule noop_resultI)
  fix ok c'
  assume "bind m (\<lambda>(ok, c). ret (ok \<and> \<not> failed c, c)) = Some (Inr (ok, c'))"
  then obtain ok1 where m: "m = Some (Inr (ok1, c'))" and ok: "ok = (ok1 \<and> \<not> failed c')"
    by (auto simp: bind_eq_ret ret_def)
  from noop_loopD [OF assms m] ok show "c' = NoopContext (f \<or> \<not> ok)" by auto
qed

lemma iface_loops_noop:
  assumes "noop_call call"
  shows "noop_loop f (bind (iface_bases call bs v (NoopContext f)) (\<lambda>(ok, c1).
          if \<not> ok then ret (False, c1)
          else bind (iface_props call isPartial ps v c1) (\<lambda>(ok, c2).
            if \<not> ok then ret (False, c2)
            else iface_keys call st idx strict ap v c2)))"
  by (intro noop_loop_bind iface_bases_noop iface_props_noop iface_keys_noop assms)

lemma iface_check_unfold:
  "iface_check call st bs ps isPartial idx strict ap v c =
     (if \<not> typeof_object v \<or> v = VNull then failing PNone (Some ''is not an object'') 0 c
      else bind (bind (iface_bases call bs v c) (\<lambda>(ok, c1).
          if \<not> ok then ret (False, c1)
          else bind (iface_props call isPartial ps v c1) (\<lambda>(ok, c2).
            if \<not> ok then ret (False, c2)
            else iface_keys call st idx strict ap v c2))) (\<lambda>(ok, c3). ret (ok \<and> \<not> failed c3, c3)))"
  unfolding iface_check_def
  by (auto simp: bind_def ret_def split: option.splits sum.splits prod.splits)

lemma iface_check_noop:
  assumes "noop_call call"
  shows "noop_result f (iface_check call st bs ps isPartial idx strict ap v (NoopContext f))"
  unfolding iface_check_unfold
  using noop_result_of_loop [OF iface_loops_noop [OF assms]] by simp

lemma run_noop: "noop_call (run n st)"
proof (induction n)
  case 0
  show ?case by (simp add: noop_call_def noop_call1_def)
next
  case (Suc n)
  have "noop_result f (run (Suc n) st k v (NoopContext f))" for k v f
  proof (cases k)
    case (CTramp a) then show ?thesis
      using noop_call_result [OF Suc] by (auto split: option.splits)
  next
    case (CName k' m) then show ?thesis
      by (auto intro!: noop_result_bind [where ?f0.0 = f] noop_call_result [OF Suc])
  next
    case (CArray k') then show ?thesis
      by (auto intro!: array_loop_noop noop_call_call1 [OF Suc])
  next
    case (CRest k' s) then show ?thesis
      by (auto intro!: rest_loop_noop noop_call_call1 [OF Suc])
  next
    case (CTuple ks) then show ?thesis by (simp add: tuple_check_noop [OF Suc])
  next
    case (CTupleRest ks r) then show ?thesis
      by (auto intro!: noop_result_bind [where ?f0.0 = f] tuple_check_noop [OF Suc] noop_call_result [OF Suc])
  next
    case (CTupleStrict ks) then show ?thesis
      by (auto intro!: noop_result_bind [where ?f0.0 = f] tuple_check_noop [OF Suc] strict_length_noop)
  next
    case (CUnion ks m) then show ?thesis
      by (auto simp: noop_result_def bind_eq_ret failing_def ret_def split: option.splits)
  next
    case (CIntersection ks) then show ?thesis
      using noop_result_of_loop [OF every_loop_noop [OF Suc]] by simp
  next
    case (CPartial k') then show ?thesis using noop_call_result [OF Suc] by auto
  next
    case (COptional k') then show ?thesis using noop_call_result [OF Suc] by auto
  next
    case (CIface bs ps isP idx strict ap) then show ?thesis
      by (simp add: iface_check_noop [OF Suc])
  next
    case (CParamList ps) then show ?thesis by (simp add: params_check_noop [OF Suc])
  next
    case (CParamListStrict ps) then show ?thesis
      by (auto intro!: noop_result_bind [where ?f0.0 = f] params_check_noop [OF Suc] strict_length_noop)
  qed auto
  then show ?case by (simp add: noop_call_def noop_call1_def)
qed

section \<open>Compiling an interface\<close>

lemma getChecker_TIface_shape:
  assumes "getChecker (Suc n) suite strict isPartial ap (TIface bases props idx) st = (Some (Inr k), st')"
  shows "\<exists>baseCheckers propCheckers isPropRequired ic a h.
     k = CIface baseCheckers (zip (map fst props) (zip propCheckers isPropRequired)) isPartial ic strict a
     \<and> length propCheckers = length props
     \<and> probe_required (run n h) (zip (map (\<lambda>(name, ttype, isOpt). isOpt) props) propCheckers)
           (NoopContext False) = Some (Inr isPropRequired)"
  using assms
  apply (simp only: getChecker.simps)
  apply (drule cbind_ok, clarify)+
  apply (simp only: lift_res_ok cret_ok)
  apply (drule cmap_length)+
  apply blast
  done

section \<open>Required properties\<close>

text \<open>
  C5 (required properties of an interface). The flags \<open>isPropRequired\<close> are computed by
  calling every property closure on \<open>undefined\<close> in one and the same \<open>testCtx\<close>, so a failure
  recorded by the probe of one property is still held when the next closure is probed. The
  closure of an intersection returns \<open>... && !ctx.failed()\<close>: for the interface
  \<open>{a: number, c: any & any}\<close> the closure of \<open>c\<close> accepts \<open>undefined\<close>, yet after the failed probe
  of \<open>a\<close> its probe returns false, \<open>c\<close> is flagged required and the value \<open>{a: 1}\<close> is
  rejected with \<open>value.c is missing\<close>. With the two properties declared in the other order
  the same value is accepted.
\<close>

theorem probe_shares_context:
  "test_type 5 (basicTypes False) (TIntersection [TName 2 ''any'', TName 3 ''any'']) VUndefined = ret True
   \<and> test_type 5 (basicTypes False) probed_second (VObj [(''a'', VNum 1)]) = ret False
   \<and> validate_type 5 (basicTypes False) probed_second (VObj [(''a'', VNum 1)])
        = ret (Some [(''value.c'', ''is missing'')])
   \<and> test_type 5 (basicTypes False) probed_first (VObj [(''a'', VNum 1)]) = ret True
   \<and> validate_type 5 (basicTypes False) probed_first (VObj [(''a'', VNum 1)]) = ret None"
  by code_simp

section \<open>Index signatures\<close>

text \<open>
  C6 (an index signature replaces the extraneous-key check). The closure of an interface
  with an index signature does not run the check itself, but its bases are compiled in the
  same mode with the shared set \<open>allowedProps\<close>, which holds property names only. For
  \<open>Base = {a: number}\<close> and \<open>Derived extends Base {[key: string]: number}\<close> the strict closure of
  \<open>Base\<close>, called by that of \<open>Derived\<close> on \<open>{a: 1, z: 2}\<close>, reports \<open>value.z is extraneous\<close>,
  and \<open>strictTest\<close> returns false; \<open>test\<close> returns true, and so does \<open>strictTest\<close> for the
  same interface written without a base.
\<close>

theorem base_reports_extraneous:
  "strictTest_type 5 derived_suite Derived (VObj [(''a'', VNum 1), (''z'', VNum 2)]) = ret False
   \<and> strictValidate_type 5 derived_suite Derived (VObj [(''a'', VNum 1), (''z'', VNum 2)])
        = ret (Some [(''value.z'', ''is extraneous'')])
   \<and> test_type 5 derived_suite Derived (VObj [(''a'', VNum 1), (''z'', VNum 2)]) = ret True
   \<and> strictTest_type 5 derived_suite (TIface [] [(''a'', TName 1 ''number'', False)] (Some (TName 2 ''number'')))
        (VObj [(''a'', VNum 1), (''z'', VNum 2)]) = ret True"
  by code_simp

section \<open>Errors raised while compiling\<close>

text \<open>
  C8, as the claim states it, fails for a Rest that is not the last element of a tuple:
  the constructor of \<open>TTuple\<close> looks at the last element only and has no \<open>throw\<close>, and
  \<open>RestType.getChecker\<close> throws only when its type is not an array. The tuple
  \<open>tuple(rest(array("number")), "string")\<close> is constructed with the Rest left in the
  fixed-arity list and no start index, compiles without an error, and its checker accepts
  \<open>[1, "x"]\<close>.
\<close>

theorem rest_first_counterexample:
  "rest_first = TTuple [RestType (Inr (TArray (TName 0 ''number''))) None, TName 1 ''string''] None
   \<and> fst (getChecker 4 small_suite False False None rest_first empty_cstate)
        = ret (CTuple [CRest number_chk None, string_chk])
   \<and> test_type 4 small_suite rest_first (VArr [VNum 1, VStr ''x'']) = ret True"
proof (intro conjI)
  show 1: "rest_first = TTuple [RestType (Inr (TArray (TName 0 ''number''))) None, TName 1 ''string''] None"
    by (simp add: rest_first_def new_TTuple_def rest_def)
  show "fst (getChecker 4 small_suite False False None rest_first empty_cstate)
        = ret (CTuple [CRest number_chk None, string_chk])"
    by (simp add: 1 eval_nat_numeral compile_defs small_suite_def string_chk_def number_chk_def ret_def)
  show "test_type 4 small_suite rest_first (VArr [VNum 1, VStr ''x'']) = ret True"
    by code_simp
qed

text \<open>
  C8, amended. Compiling a \<open>TName\<close> whose name the suite does not hold throws, and so
  does the constructor of a Checker for it: "Unknown type" when \<open>suite[name]\<close> finds
  nothing, a TypeError when it finds a property that the suite object inherits, which has
  no \<open>getChecker\<close>. Compiling an \<open>EnumLiteral\<close> throws unless the enum name resolves to an
  \<open>EnumType\<close> that has the member. Compiling a Rest whose type, given inline or by name, is
  not an array throws "Rest type must be an array", or "Unknown type" for a name that
  finds nothing. A Rest in the final position of a tuple is lifted out of the fixed-arity
  list by the constructor, with its start index equal to the fixed-arity length. Nothing
  looks at a Rest in another position.
\<close>

theorem compile_errors:
  "(map_of suite name = None \<and> map_of (building st) (i, name) = None \<longrightarrow>
      fst (getChecker (Suc n) suite strict isP ap (TName i name) st) =
        throw (if name \<in> set (map fst object_prototype) then TypeError ''ttype.getChecker is not a function''
               else Error (''Unknown type '' @ name)))
   \<and> (map_of suite name = None \<longrightarrow>
      new_Checker (Suc n) suite (TName i name) path =
        throw (if name \<in> set (map fst object_prototype) then TypeError ''ttype.getChecker is not a function''
               else Error (''Unknown type '' @ name)))
   \<and> fst (getChecker (Suc n) suite strict isP ap (TEnumLiteral enumName member) st) =
       (case map_of suite enumName of
          None \<Rightarrow>
            throw (if enumName \<in> set (map fst object_prototype)
                   then Error (''Type '' @ enumName @ '' used in enumlit is not an enum type'')
                   else Error (''Unknown type '' @ enumName))
        | Some (TEnumType members) \<Rightarrow>
            if map_of members ''hasOwnProperty'' \<noteq> None
            then throw (TypeError ''ttype.members.hasOwnProperty is not a function'')
            else if map_of members member = None
            then throw (Error (''Unknown value '' @ enumName @ ''.'' @ member @ '' used in enumlit''))
            else ret (CEnumLiteral (member_value members member) (''is not '' @ enumName @ ''.'' @ member))
        | Some t \<Rightarrow> throw (Error (''Type '' @ enumName @ '' used in enumlit is not an enum type'')))
   \<and> ((\<forall>e. t \<noteq> TArray e) \<longrightarrow>
      fst (getChecker (Suc n) suite strict isP ap (RestType (Inr t) start) st) = throw (Error ''Rest type must be an array''))
   \<and> ((\<forall>e. map_of suite name \<noteq> Some (TArray e)) \<longrightarrow>
      fst (getChecker (Suc n) suite strict isP ap (RestType (Inl name) start) st) =
        throw (if map_of suite name = None \<and> name \<notin> set (map fst object_prototype)
               then Error (''Unknown type '' @ name) else Error ''Rest type must be an array''))
   \<and> new_TTuple (ts @ [RestType typeSpec start]) = TTuple ts (Some (RestType typeSpec (Some (length ts))))"
proof (intro conjI impI)
  assume "map_of suite name = None \<and> map_of (building st) (i, name) = None"
  then show "fst (getChecker (Suc n) suite strict isP ap (TName i name) st) =
        throw (if name \<in> set (map fst object_prototype) then TypeError ''ttype.getChecker is not a function''
               else Error (''Unknown type '' @ name))"
    by (simp add: compile_defs throw_def)
next
  assume "map_of suite name = None"
  then show "new_Checker (Suc n) suite (TName i name) path =
        throw (if name \<in> set (map fst object_prototype) then TypeError ''ttype.getChecker is not a function''
               else Error (''Unknown type '' @ name))"
    by (simp add: new_Checker_def compile_def compile_defs throw_def)
next
  show "fst (getChecker (Suc n) suite strict isP ap (TEnumLiteral enumName member) st) =
       (case map_of suite enumName of
          None \<Rightarrow>
            throw (if enumName \<in> set (map fst object_prototype)
                   then Error (''Type '' @ enumName @ '' used in enumlit is not an enum type'')
                   else Error (''Unknown type '' @ enumName))
        | Some (TEnumType members) \<Rightarrow>
            if map_of members ''hasOwnProperty'' \<noteq> None
            then throw (TypeError ''ttype.members.hasOwnProperty is not a function'')
            else if map_of members member = None
            then throw (Error (''Unknown value '' @ enumName @ ''.'' @ member @ '' used in enumlit''))
            else ret (CEnumLiteral (member_value members member) (''is not '' @ enumName @ ''.'' @ member))
        | Some t \<Rightarrow> throw (Error (''Type '' @ enumName @ '' used in enumlit is not an enum type'')))"
    by (simp add: compile_defs throw_def ret_def split: option.splits ttype.splits)
next
  assume "\<forall>e. t \<noteq> TArray e"
  then show "fst (getChecker (Suc n) suite strict isP ap (RestType (Inr t) start) st) = throw (Error ''Rest type must be an array'')"
    by (cases t) (simp_all add: compile_defs throw_def)
next
  assume a: "\<forall>e. map_of suite name \<noteq> Some (TArray e)"
  show "fst (getChecker (Suc n) suite strict isP ap (RestType (Inl name) start) st) =
        throw (if map_of suite name = None \<and> name \<notin> set (map fst object_prototype)
               then Error (''Unknown type '' @ name) else Error ''Rest type must be an array'')"
  proof (cases "map_of suite name")
    case None
    then show ?thesis by (simp add: compile_defs throw_def)
  next
    case (Some t)
    with a show ?thesis by (cases t) (simp_all add: compile_defs throw_def)
  qed
next
  show "new_TTuple (ts @ [RestType typeSpec start]) = TTuple ts (Some (RestType typeSpec (Some (length ts))))"
    by (simp add: new_TTuple_def)
qed

theorem compile_errors_witness:
  "new_Checker 2 small_suite (TName 0 ''Perso'') ''value'' = throw (Error ''Unknown type Perso'')
   \<and> fst (getChecker 2 small_suite False False None (TName 0 ''Perso'') empty_cstate) = throw (Error ''Unknown type Perso'')
   \<and> fst (getChecker 2 small_suite False False None (TEnumLiteral ''number'' ''Up'') empty_cstate)
        = throw (Error ''Type number used in enumlit is not an enum type'')
   \<and> fst (getChecker 2 small_suite False False None (RestType (Inr (TName 0 ''number'')) None) empty_cstate)
        = throw (Error ''Rest type must be an array'')
   \<and> fst (getChecker 2 small_suite False False None (RestType (Inl ''Perso'') None) empty_cstate)
        = throw (Error ''Unknown type Perso'')
   \<and> new_TTuple ([TName 1 ''string''] @ [RestType (Inr (TArray (TName 0 ''number''))) None])
        = TTuple [TName 1 ''string''] (Some (RestType (Inr (TArray (TName 0 ''number''))) (Some 1)))"
  using compile_errors [where suite = small_suite and name = "''Perso''" and st = empty_cstate and i = 0 and n = 1
      and strict = False and isP = False and ap = None and path = "''value''" and enumName = "''number''"
      and member = "''Up''" and t = "TName 0 ''number''" and start = None and ts = "[TName 1 ''string'']"
      and typeSpec = "Inr (TArray (TName 0 ''number''))"]
  by (simp add: eval_nat_numeral small_suite_def empty_cstate_def object_prototype_def object_methods_def)

section \<open>Partial interfaces\<close>

lemma iface_bases_accept:
  "\<forall>b\<in>set bs. call b v (NoopContext False) = ret (True, NoopContext False) \<Longrightarrow>
   iface_bases call bs v (NoopContext False) = ret (True, NoopContext False)"
  by (induction bs) simp_all

lemma iface_props_accept:
  "\<forall>(name, pc, req)\<in>set ps. get_member v name \<noteq> VUndefined \<longrightarrow>
      call pc (get_member v name) (NoopContext False) = ret (True, NoopContext False) \<Longrightarrow>
   iface_props call True ps v (NoopContext False) = ret (True, NoopContext False)"
  by (induction ps) auto

lemma iface_index_accept:
  "\<forall>key\<in>set ks. call (get_member v key) (NoopContext False) = ret (True, NoopContext False) \<Longrightarrow>
   iface_index call v ks (NoopContext False) = ret (True, NoopContext False)"
  by (induction ks) simp_all

lemma iface_props_skipped:
  "\<forall>(name, pc, req)\<in>set ps. get_member v name = VUndefined \<Longrightarrow>
   iface_props call True ps v c = ret (True, c)"
  by (induction ps) auto

text \<open>
  C7, as the claim states it, fails in two ways. \<open>Partial\<close> passes \<open>isPartial\<close> to the
  closures of the bases, but a base such as \<open>Date\<close> still checks the whole value: the
  checker of \<open>partial(iface(["Date"], {}))\<close> rejects the empty object. And \<open>value[name]\<close>
  finds inherited properties: for \<open>partial(iface([], {toString: "string"}))\<close> the empty
  object has a \<open>toString\<close>, a function, which is not a string.
\<close>

theorem partial_of_date_counterexample:
  "test_type 5 (basicTypes False) partial_of_date (VObj []) = ret False
   \<and> test_type 5 (basicTypes False) partial_of_toString (VObj []) = ret False"
  by code_simp

text \<open>
  C7, amended. The closure compiled from \<open>Partial(I)\<close> for an interface \<open>I\<close> is the
  closure of \<open>I\<close> compiled with \<open>isPartial = true\<close> behind a test for \<open>undefined\<close>. It
  accepts \<open>undefined\<close>. If \<open>I\<close> has no bases, it accepts an object without enumerable
  properties on which every property of \<open>I\<close> reads as \<open>undefined\<close> (the empty object, unless
  \<open>I\<close> names a property that it inherits from \<open>Object.prototype\<close>) and records nothing. In
  plain mode it accepts every object that all the base closures accept, whose properties
  that do not read as \<open>undefined\<close> validate against the closures of their property types,
  and whose keys all validate against the index signature if there is one. A property
  that reads as \<open>undefined\<close> is skipped whether required or not.
\<close>

theorem partial_accepts:
  "(getChecker (Suc (Suc n)) suite strict isPartial ap (TPartial (TIface bases props idx)) cst = (Some (Inr k), cst') \<longrightarrow>
      (\<exists>bs pcs req ic a. k = CPartial (CIface bs (zip (map fst props) (zip pcs req)) True ic strict a)
          \<and> length pcs = length props))
   \<and> run (Suc m) st (CPartial k') VUndefined c = ret (True, c)
   \<and> (typeof_object w \<and> w \<noteq> VNull \<and> own_entries w = []
       \<and> (\<forall>(name, pc, req)\<in>set ps. get_member w name = VUndefined)
      \<longrightarrow> run (Suc (Suc m)) st (CPartial (CIface [] ps True ic' strict' a')) w c = ret (\<not> failed c, c))
   \<and> (typeof_object v \<and> v \<noteq> VNull
       \<and> (\<forall>b\<in>set bs. run m st b v (NoopContext False) = ret (True, NoopContext False))
       \<and> (\<forall>(name, pc, req)\<in>set ps. get_member v name \<noteq> VUndefined \<longrightarrow>
             run m st pc (get_member v name) (NoopContext False) = ret (True, NoopContext False))
       \<and> (\<forall>ic. ic' = Some ic \<longrightarrow> (\<forall>key\<in>set (map fst (own_entries v)).
             run m st ic (get_member v key) (NoopContext False) = ret (True, NoopContext False)))
      \<longrightarrow> run (Suc (Suc m)) st (CPartial (CIface bs ps True ic' False a')) v (NoopContext False)
            = ret (True, NoopContext False))
   \<and> (get_member v name = VUndefined \<longrightarrow>
        iface_props call True ((name, pc, required) # ps) v c = iface_props call True ps v c)"
proof (intro conjI impI)
  assume a: "getChecker (Suc (Suc n)) suite strict isPartial ap (TPartial (TIface bases props idx)) cst = (Some (Inr k), cst')"
  have eq: "getChecker (Suc (Suc n)) suite strict isPartial ap (TPartial t) =
      cbind (getChecker (Suc n) suite strict True None t) (\<lambda>itemChecker. cret (CPartial itemChecker))" for t
    by simp
  from cbind_ok [OF a [unfolded eq]]
  obtain k0 st1 where 1: "getChecker (Suc n) suite strict True None (TIface bases props idx) cst = (Some (Inr k0), st1)"
    and k: "k = CPartial k0"
    by (auto simp only: cret_ok)
  from getChecker_TIface_shape [OF 1] k
  show "\<exists>bs pcs req ic a. k = CPartial (CIface bs (zip (map fst props) (zip pcs req)) True ic strict a)
          \<and> length pcs = length props"
    by blast
next
  show "run (Suc m) st (CPartial k') VUndefined c = ret (True, c)" by simp
next
  assume h: "typeof_object w \<and> w \<noteq> VNull \<and> own_entries w = []
       \<and> (\<forall>(name, pc, req)\<in>set ps. get_member w name = VUndefined)"
  then have w: "w \<noteq> VUndefined" "typeof_object w" "w \<noteq> VNull" "own_entries w = []" by auto
  from h have p: "iface_props (run m st) True ps w c = ret (True, c)"
    by (intro iface_props_skipped) blast
  show "run (Suc (Suc m)) st (CPartial (CIface [] ps True ic' strict' a')) w c = ret (\<not> failed c, c)"
    using w p by (cases ic') (simp_all add: iface_check_def iface_keys_def)
next
  assume h: "typeof_object v \<and> v \<noteq> VNull
       \<and> (\<forall>b\<in>set bs. run m st b v (NoopContext False) = ret (True, NoopContext False))
       \<and> (\<forall>(name, pc, req)\<in>set ps. get_member v name \<noteq> VUndefined \<longrightarrow>
             run m st pc (get_member v name) (NoopContext False) = ret (True, NoopContext False))
       \<and> (\<forall>ic. ic' = Some ic \<longrightarrow> (\<forall>key\<in>set (map fst (own_entries v)).
             run m st ic (get_member v key) (NoopContext False) = ret (True, NoopContext False)))"
  then have v: "v \<noteq> VUndefined" "typeof_object v" "v \<noteq> VNull" by auto
  have b: "iface_bases (run m st) bs v (NoopContext False) = ret (True, NoopContext False)"
    using h by (intro iface_bases_accept) blast
  have p: "iface_props (run m st) True ps v (NoopContext False) = ret (True, NoopContext False)"
    using h by (intro iface_props_accept) blast
  have i: "iface_keys (run m st) st ic' False a' v (NoopContext False) = ret (True, NoopContext False)"
  proof (cases ic')
    case None then show ?thesis by (simp add: iface_keys_def)
  next
    case (Some ic)
    with h have "\<forall>key\<in>set (map fst (own_entries v)).
             run m st ic (get_member v key) (NoopContext False) = ret (True, NoopContext False)" by blast
    from iface_index_accept [where call = "run m st ic" and v = v, OF this] Some
    show ?thesis by (simp add: iface_keys_def)
  qed
  show "run (Suc (Suc m)) st (CPartial (CIface bs ps True ic' False a')) v (NoopContext False)
            = ret (True, NoopContext False)"
    using v b p i by (simp add: iface_check_def)
next
  assume "get_member v name = VUndefined"
  then show "iface_props call True ((name, pc, required) # ps) v c = iface_props call True ps v c"
    by simp
qed

theorem partial_accepts_witness:
  "fst (getChecker 4 small_suite False False None (TPartial Person) empty_cstate)
      = ret (CPartial (CIface [] [(''name'', string_chk, True), (''age'', number_chk, True)] True None False 0))
   \<and> test_type 5 small_suite (TPartial Person) VUndefined = ret True
   \<and> test_type 5 small_suite (TPartial Person) (VObj []) = ret True
   \<and> test_type 5 small_suite (TPartial Person) (VObj [(''age'', VNum 3)]) = ret True
   \<and> validate_type 5 small_suite (TPartial Person) (VObj [(''age'', VStr ''no'')])
        = ret (Some [(''value.age'', ''is not a number'')])
   \<and> run 3 empty_store (CPartial (CIface [] [(''name'', string_chk, True), (''age'', number_chk, True)] True None False 0))
        (VObj [(''age'', VNum 3)]) (NoopContext False) = ret (True, NoopContext False)
   \<and> run 3 empty_store (CPartial (CIface [] [(''name'', string_chk, True), (''age'', number_chk, True)] True None False 0))
        (VObj []) (NoopContext False) = ret (True, NoopContext False)"
proof -
  have a: "fst (getChecker 4 small_suite False False None (TPartial Person) empty_cstate)
      = ret (CPartial (CIface [] [(''name'', string_chk, True), (''age'', number_chk, True)] True None False 0))"
    by (simp add: eval_nat_numeral compile_defs small_suite_def Person_def
        string_chk_def number_chk_def failing_def ret_def)
  have b: "test_type 5 small_suite (TPartial Person) VUndefined = ret True" by code_simp
  have c: "test_type 5 small_suite (TPartial Person) (VObj []) = ret True" by code_simp
  have d: "test_type 5 small_suite (TPartial Person) (VObj [(''age'', VNum 3)]) = ret True" by code_simp
  have e: "validate_type 5 small_suite (TPartial Person) (VObj [(''age'', VStr ''no'')])
        = ret (Some [(''value.age'', ''is not a number'')])" by code_simp
  have n: "Suc (Suc 1) = 3" by simp
  from partial_accepts [where m = 1 and st = empty_store and v = "VObj [(''age'', VNum 3)]" and bs = "[]"
      and w = "VObj []" and name = "''name''" and c = "NoopContext False"
      and ps = "[(''name'', string_chk, True), (''age'', number_chk, True)]" and ic' = None and a' = 0
      and n = 2 and suite = small_suite and strict = False and isPartial = False and ap = None
      and bases = "[]" and idx = None and cst = empty_cstate and strict' = False
      and props = "[(''name'', TName 1 ''string'', False), (''age'', TName 2 ''number'', False)]"]
  have f: "run 3 empty_store (CPartial (CIface [] [(''name'', string_chk, True), (''age'', number_chk, True)] True None False 0))
        (VObj [(''age'', VNum 3)]) (NoopContext False) = ret (True, NoopContext False)
     \<and> run 3 empty_store (CPartial (CIface [] [(''name'', string_chk, True), (''age'', number_chk, True)] True None False 0))
        (VObj []) (NoopContext False) = ret (True, NoopContext False)"
    unfolding n by (simp add: lookup_def object_prototype_def object_methods_def number_chk_def string_chk_def)
  show ?thesis
    by (intro conjI a b c d e conjunct1 [OF f] conjunct2 [OF f])
qed

section \<open>Recursive names\<close>

lemma keeps_cret [simp]: "keeps_building (cret x)"
  by (simp add: keeps_building_def cret_def)

lemma keeps_cthrow [simp]: "keeps_building (cthrow e)"
  by (simp add: keeps_building_def cthrow_def)

lemma keeps_cbind: "keeps_building m \<Longrightarrow> (\<And>x. keeps_building (f x)) \<Longrightarrow> keeps_building (cbind m f)"
  unfolding keeps_building_def cbind_def
  by (auto split: prod.splits option.splits sum.splits)

lemma keeps_cmap: "(\<And>x. keeps_building (f x)) \<Longrightarrow> keeps_building (cmap f xs)"
  by (induction xs) (auto intro!: keeps_cbind)

lemma keeps_simple [simp]:
  "keeps_building (getNamedType suite name)"
  "keeps_building new_Set"
  "keeps_building (default_Set ap)"
  "keeps_building (add_props a names)"
  "keeps_building (lift_res m)"
  "keeps_building (assign_checkerFunc a k)"
  "keeps_building (the_type callee named)"
  by (auto simp: keeps_building_def getNamedType_def new_Set_def default_Set_def add_props_def
      lift_res_def assign_checkerFunc_def the_type_def cret_def cthrow_def split: option.splits)

lemma delete_absent: "map_of al k = None \<Longrightarrow> AList.delete k al = al"
  by (induction al) auto

lemma delete_update: "map_of al k = None \<Longrightarrow> AList.delete k (AList.update k v al) = al"
  by (induction al) auto

lemma keeps_thunk:
  assumes "keeps_building m" and "\<And>a x. keeps_building (f a x)" and "map_of (building st) node = None"
    and "cbind (install_thunk node) (\<lambda>a. cbind (finally_unset node m) (f a)) st = (r, st')"
  shows "building st' = building st"
proof -
  let ?st1 = "st\<lparr>building := AList.update node (fresh st) (building st), fresh := Suc (fresh st)\<rparr>"
  obtain r2 st2 where m: "m ?st1 = (r2, st2)" by (cases "m ?st1")
  from assms(1) m have b2: "building st2 = building ?st1" by (auto simp: keeps_building_def)
  let ?st3 = "st2\<lparr>building := AList.delete node (building st2)\<rparr>"
  have b3: "building ?st3 = building st" using b2 assms(3) by (simp add: delete_update)
  have e: "(r, st') = (case r2 of None \<Rightarrow> (None, ?st3) | Some (Inl e) \<Rightarrow> (Some (Inl e), ?st3)
                    | Some (Inr x) \<Rightarrow> f (fresh st) x ?st3)"
    using assms(4) m by (simp add: cbind_def install_thunk_def finally_unset_def)
  show ?thesis
  proof (cases r2)
    case None
    with e have "st' = ?st3" by simp
    with b3 show ?thesis by simp
  next
    case (Some y)
    show ?thesis
    proof (cases y)
      case (Inl err)
      with e Some have "st' = ?st3" by simp
      with b3 show ?thesis by simp
    next
      case (Inr x)
      with e Some have "f (fresh st) x ?st3 = (r, st')" by simp
      with assms(2) [of "fresh st" x] have "building st' = building ?st3"
        unfolding keeps_building_def by blast
      with b3 show ?thesis by simp
    qed
  qed
qed

lemma getChecker_keeps: "keeps_building (getChecker n suite strict isP ap t)"
proof (induction n arbitrary: strict isP ap t)
  case 0 show ?case by (simp add: keeps_building_def)
next
  case (Suc n)
  show ?case
  proof (cases t)
    case (TName i name)
    have inner: "keeps_building (cbind (getNamedType suite name) (\<lambda>named.
                     cbind (the_type ''ttype'' named) (\<lambda>ttype.
                       cbind (getChecker n suite strict isP ap ttype) (\<lambda>checker.
                         cret (if isBasicType ttype \<or> isTName ttype then checker
                               else CName checker (''is not a '' @ name))))))"
      by (intro keeps_cbind Suc) simp_all
    have after: "keeps_building (cbind (assign_checkerFunc a checkerFunc) (\<lambda>u. cret checkerFunc))" for a checkerFunc
      by (intro keeps_cbind) simp_all
    show ?thesis
      unfolding keeps_building_def
    proof (intro allI impI)
      fix st r st'
      assume g: "getChecker (Suc n) suite strict isP ap t st = (r, st')"
      show "building st' = building st"
      proof (cases "map_of (building st) (i, name)")
        case (Some a)
        with g TName show ?thesis by (simp add: cret_def)
      next
        case None
        with g TName have "cbind (install_thunk (i, name)) (\<lambda>a.
            cbind (finally_unset (i, name)
                    (cbind (getNamedType suite name) (\<lambda>named.
                     cbind (the_type ''ttype'' named) (\<lambda>ttype.
                       cbind (getChecker n suite strict isP ap ttype) (\<lambda>checker.
                         cret (if isBasicType ttype \<or> isTName ttype then checker
                               else CName checker (''is not a '' @ name)))))))
              (\<lambda>checkerFunc. cbind (assign_checkerFunc a checkerFunc) (\<lambda>u. cret checkerFunc))) st = (r, st')"
          by simp
        from keeps_thunk [OF inner after None this] show ?thesis .
      qed
    qed
  next
    case (RestType typeSpec start)
    then show ?thesis
      by (auto intro!: keeps_cbind Suc split: sum.splits ttype.splits option.splits)
  next
    case (TTuple ts r)
    then show ?thesis
      by (auto intro!: keeps_cbind keeps_cmap Suc split: option.splits)
  next
    case (TEnumLiteral e p)
    then show ?thesis
      by (auto intro!: keeps_cbind split: ttype.splits option.splits)
  next
    case (TIface bases props idx)
    then show ?thesis
      by (auto intro!: keeps_cbind keeps_cmap Suc split: option.splits prod.splits)
  next
    case (TParamList ps)
    then show ?thesis
      by (auto intro!: keeps_cbind keeps_cmap Suc split: prod.splits)
  qed (auto intro!: keeps_cbind keeps_cmap Suc)
qed


lemma thunk_reentry:
  "map_of (building st) (i, name) = Some a \<Longrightarrow>
   getChecker (Suc n) suite strict isP ap (TName i name) st = (Some (Inr (CTramp a)), st)"
  by (simp add: cret_def)

lemma thunk_removed:
  "getChecker n suite strict isP ap t st = (r, st') \<Longrightarrow> building st' = building st"
  using getChecker_keeps [of n suite strict isP ap t] by (auto simp: keeps_building_def)

lemma Tree_compiles:
  "bind (compile (Suc (Suc (Suc (Suc (Suc (Suc m)))))) ((''Tree'', Tree) # small_suite) strict Tree) (\<lambda>(k, h). ret k)
     = ret (CIface []
             [(''value'', number_chk, True),
              (''children'', CArray (CName (CIface []
                  [(''value'', number_chk, True), (''children'', CArray (CTramp 2), True)]
                  False None strict 3) ''is not a Tree''), True)]
             False None strict 0)"
  by (simp add: compile_def compile_defs small_suite_def Tree_def number_chk_def failing_def ret_def)

lemma Node_never_compiles:
  "compile (Suc (Suc (Suc (Suc (Suc (Suc (Suc m))))))) [(''Node'', Node), (''null'', BasicType (\<lambda>v. v = VNull) ''is not null'')] strict Node
     = throw (TypeError ''checkerFunc is not a function'')"
  by (simp add: compile_def compile_defs Node_def failing_def ret_def throw_def)

text \<open>
  C4 (compiling a recursive named type). A re-entrant \<open>getChecker\<close> call on a \<open>TName\<close>
  node that is being built returns the thunk without recursing (\<open>thunk_reentry\<close>), every
  \<open>getChecker\<close> call leaves the \<open>_checkerBeingBuilt\<close> fields as it found them, whether it
  returns, throws or exhausts the stack (\<open>thunk_removed\<close>), and the recursive type \<open>Tree\<close>
  compiles with every stack budget from six calls on (\<open>Tree_compiles\<close>). But compilation
  of a recursive named type does not always complete: for \<open>Node = {next: Node | null}\<close>
  the inner \<open>TIface.getChecker\<close> computes \<open>isPropRequired\<close> by calling the closure of
  \<open>next\<close> on \<open>undefined\<close>; the union closure calls the thunk while its variable
  \<open>checkerFunc\<close> is still unassigned, and \<open>createCheckers\<close> throws a TypeError.
\<close>

theorem recursive_union_prop_throws:
  "bind (createCheckers 20 False [[(''Node'', Node)]]) (\<lambda>checkers. ret (map fst checkers))
     = throw (TypeError ''checkerFunc is not a function'')"
  by code_simp

section \<open>Strict and plain compilation\<close>

lemma map_of_plain_cells:
  "map_of (cells (plain_store h)) a = map_option plainify (map_of (cells h) a)"
  by (simp add: plain_store_def map_of_map map_prod_def)

lemma union_loop_undefined:
  assumes "\<And>k c. k \<in> set ks \<Longrightarrow> call' (plainify k) VUndefined c = call k VUndefined c"
  shows "union_loop call' (map plainify ks) VUndefined ur = union_loop call ks VUndefined ur"
  using assms by (induction ks arbitrary: ur) (simp_all cong: if_cong)

lemma every_loop_undefined:
  assumes "\<And>k c. k \<in> set ks \<Longrightarrow> call' (plainify k) VUndefined c = call k VUndefined c"
  shows "every_loop call' (map plainify ks) VUndefined c = every_loop call ks VUndefined c"
  using assms by (induction ks arbitrary: c) (simp_all cong: if_cong prod.case_cong bool.case_cong)

lemma run_plainify_undefined:
  "run n (plain_store h) (plainify k) VUndefined c = run n h k VUndefined c"
proof (induction n arbitrary: k c)
  case 0 show ?case by simp
next
  case (Suc n)
  show ?case
  proof (cases k)
    case (CTramp a)
    then show ?thesis by (cases "map_of (cells h) a") (simp_all add: map_of_plain_cells Suc)
  next
    case (CUnion ks m)
    have "union_loop (run n (plain_store h)) (map plainify ks) VUndefined ur
            = union_loop (run n h) ks VUndefined ur" for ur
      by (rule union_loop_undefined) (rule Suc)
    with CUnion show ?thesis by simp
  next
    case (CIntersection ks)
    have "every_loop (run n (plain_store h)) (map plainify ks) VUndefined c
            = every_loop (run n h) ks VUndefined c"
      by (rule every_loop_undefined) (rule Suc)
    with CIntersection show ?thesis by simp
  qed (simp_all add: Suc tuple_check_def params_check_def strict_length_def failing_def rest_loop_def
        iface_check_def throw_def)
qed

lemma probe_required_plainify:
  assumes "\<And>k c. call' (plainify k) VUndefined c = call k VUndefined c"
  shows "probe_required call' (zip opts (map plainify ks)) tc = probe_required call (zip opts ks) tc"
proof (induction ks arbitrary: opts tc)
  case Nil show ?case by simp
next
  case (Cons k ks)
  show ?case by (cases opts) (simp_all add: assms Cons cong: if_cong)
qed

lemma plain_state_simps [simp]:
  "building (plain_state st) = building st"
  "fresh (plain_state st) = fresh st"
  "heap (plain_state st) = plain_store (heap st)"
  "sets (plain_store h) = sets h"
  "cells (plain_store h) = map (map_prod id plainify) (cells h)"
  by (simp_all add: plain_state_def plain_store_def)

lemma map_res_simps [simp]:
  "map_res f None = None"
  "map_res f (Some (Inl e)) = Some (Inl e)"
  "map_res f (Some (Inr x)) = Some (Inr (f x))"
  by (simp_all add: map_res_def)

lemma plain_compI:
  "(\<And>st r st'. m st = (r, st') \<Longrightarrow> m' (plain_state st) = (map_res f r, plain_state st')) \<Longrightarrow> plain_comp f m m'"
  by (auto simp: plain_comp_def split: prod.splits)

lemma plain_compD:
  "plain_comp f m m' \<Longrightarrow> m st = (r, st') \<Longrightarrow> m' (plain_state st) = (map_res f r, plain_state st')"
  by (auto simp: plain_comp_def split: prod.splits)

lemma plain_comp_cret: "plain_comp f (cret x) (cret (f x))"
  by (rule plain_compI) (auto simp: cret_def)

lemma plain_comp_cret': "y = f x \<Longrightarrow> plain_comp f (cret x) (cret y)"
  by (simp add: plain_comp_cret)

lemma plain_comp_cthrow: "plain_comp f (cthrow e) (cthrow e)"
  by (rule plain_compI) (auto simp: cthrow_def)

lemma plain_comp_cbind:
  assumes "plain_comp f m m'" and "\<And>x. plain_comp g (k x) (k' (f x))"
  shows "plain_comp g (cbind m k) (cbind m' k')"
proof (rule plain_compI)
  fix st r st'
  assume c: "cbind m k st = (r, st')"
  obtain r1 st1 where m: "m st = (r1, st1)" by (cases "m st")
  from plain_compD [OF assms(1) m] have m': "m' (plain_state st) = (map_res f r1, plain_state st1)" .
  show "cbind m' k' (plain_state st) = (map_res g r, plain_state st')"
  proof (cases r1)
    case None with c m m' show ?thesis by (auto simp: cbind_def)
  next
    case (Some y)
    show ?thesis
    proof (cases y)
      case (Inl e) with c m m' Some show ?thesis by (auto simp: cbind_def)
    next
      case (Inr x)
      with c m Some have "k x st1 = (r, st')" by (simp add: cbind_def)
      from plain_compD [OF assms(2) this] m' Some Inr show ?thesis by (simp add: cbind_def)
    qed
  qed
qed

lemma plain_comp_cbind_id:
  assumes "plain_comp id m m'" and "\<And>x. plain_comp g (k x) (k' x)"
  shows "plain_comp g (cbind m k) (cbind m' k')"
  by (rule plain_comp_cbind [where f = id, OF assms(1)]) (simp add: assms(2))

lemma plain_comp_cmap:
  assumes "\<And>x. plain_comp f (F x) (F' x)"
  shows "plain_comp (map f) (cmap F xs) (cmap F' xs)"
proof (induction xs)
  case Nil show ?case using plain_comp_cret [of "map f" "[]"] by simp
next
  case (Cons x xs)
  have step: "plain_comp (map f) (cret (y # ys)) (cret (f y # map f ys))" for y ys
    using plain_comp_cret [of "map f" "y # ys"] by simp
  show ?case
    unfolding cmap.simps
    by (rule plain_comp_cbind [OF assms], rule plain_comp_cbind [OF Cons], rule step)
qed

lemma update_map_plainify:
  "map (map_prod id plainify) (AList.update a k al) = AList.update a (plainify k) (map (map_prod id plainify) al)"
  by (induction al) auto

lemma plain_comp_state [simp]:
  "plain_comp id (getNamedType suite name) (getNamedType suite name)"
  "plain_comp id new_Set new_Set"
  "plain_comp id (default_Set ap) (default_Set ap)"
  "plain_comp id (add_props a names) (add_props a names)"
  "plain_comp id (install_thunk node) (install_thunk node)"
  "plain_comp id (assign_checkerFunc a k) (assign_checkerFunc a (plainify k))"
  "plain_comp id (the_type callee named) (the_type callee named)"
  by (rule plain_compI;
      auto simp: getNamedType_def new_Set_def default_Set_def add_props_def install_thunk_def
        assign_checkerFunc_def the_type_def cret_def cthrow_def plain_state_def plain_store_def
        update_map_plainify
        split: option.splits if_splits)+

lemma plain_comp_finally:
  "plain_comp f m m' \<Longrightarrow> plain_comp f (finally_unset node m) (finally_unset node m')"
  by (rule plain_compI) (auto simp: finally_unset_def split: prod.splits dest!: plain_compD)

lemma plain_comp_probe:
  "plain_comp id (lift_res (\<lambda>h. probe_required (run n h) (zip opts ks) tc))
                 (lift_res (\<lambda>h. probe_required (run n h) (zip opts (map plainify ks)) tc))"
  by (rule plain_compI)
     (auto simp: lift_res_def probe_required_plainify [where call = "run n h" and call' = "run n (plain_store h)" for h,
         OF run_plainify_undefined] map_res_def option.map_id0 sum.map_id0)


lemma zip_plainify:
  "map (map_prod id (map_prod plainify id)) (zip names (zip ks req)) = zip names (zip (map plainify ks) req)"
proof (induction names arbitrary: ks req)
  case Nil show ?case by simp
next
  case (Cons n names)
  show ?case by (cases ks; cases req) (simp_all add: Cons [unfolded id_def] id_def)
qed

lemma getChecker_plain:
  "plain_comp plainify (getChecker n suite True isP ap t) (getChecker n suite False isP ap t)"
proof (induction n arbitrary: isP ap t)
  case 0
  show ?case by (rule plain_compI) auto
next
  case (Suc n)
  note rules = plain_comp_cbind [OF Suc] plain_comp_cbind [OF plain_comp_cmap [OF Suc]] plain_comp_cret
  show ?case
  proof (cases t)
    case (BasicType p m)
    then show ?thesis using plain_comp_cret [of plainify "CBasic p m"] by simp
  next
    case (TName i name)
    have inner: "plain_comp plainify
        (cbind (getNamedType suite name) (\<lambda>named.
           cbind (the_type ''ttype'' named) (\<lambda>ttype.
             cbind (getChecker n suite True isP ap ttype) (\<lambda>checker.
               cret (if isBasicType ttype \<or> isTName ttype then checker
                     else CName checker (''is not a '' @ name))))))
        (cbind (getNamedType suite name) (\<lambda>named.
           cbind (the_type ''ttype'' named) (\<lambda>ttype.
             cbind (getChecker n suite False isP ap ttype) (\<lambda>checker.
               cret (if isBasicType ttype \<or> isTName ttype then checker
                     else CName checker (''is not a '' @ name))))))"
      apply (rule plain_comp_cbind_id, simp)
      apply (rule plain_comp_cbind_id, simp)
      apply (rule plain_comp_cbind [OF Suc])
      apply (rule plain_comp_cret', simp)
      done
    have whole: "plain_comp plainify
        (cbind (install_thunk (i, name)) (\<lambda>a.
            cbind (finally_unset (i, name)
                    (cbind (getNamedType suite name) (\<lambda>named.
                     cbind (the_type ''ttype'' named) (\<lambda>ttype.
                       cbind (getChecker n suite True isP ap ttype) (\<lambda>checker.
                         cret (if isBasicType ttype \<or> isTName ttype then checker
                               else CName checker (''is not a '' @ name)))))))
              (\<lambda>checkerFunc. cbind (assign_checkerFunc a checkerFunc) (\<lambda>u. cret checkerFunc))))
        (cbind (install_thunk (i, name)) (\<lambda>a.
            cbind (finally_unset (i, name)
                    (cbind (getNamedType suite name) (\<lambda>named.
                     cbind (the_type ''ttype'' named) (\<lambda>ttype.
                       cbind (getChecker n suite False isP ap ttype) (\<lambda>checker.
                         cret (if isBasicType ttype \<or> isTName ttype then checker
                               else CName checker (''is not a '' @ name)))))))
              (\<lambda>checkerFunc. cbind (assign_checkerFunc a checkerFunc) (\<lambda>u. cret checkerFunc))))"
      apply (rule plain_comp_cbind_id, simp)
      apply (rule plain_comp_cbind [OF plain_comp_finally [OF inner]])
      apply (rule plain_comp_cbind_id, simp)
      apply (rule plain_comp_cret)
      done
    show ?thesis
    proof (rule plain_compI)
      fix st r st'
      assume g: "getChecker (Suc n) suite True isP ap t st = (r, st')"
      show "getChecker (Suc n) suite False isP ap t (plain_state st) = (map_res plainify r, plain_state st')"
      proof (cases "map_of (building st) (i, name)")
        case (Some a)
        with g TName show ?thesis by (auto simp: cret_def)
      next
        case None
        with g TName plain_compD [OF whole, of st r st'] show ?thesis by simp
      qed
    qed
  next
    case (TLiteral v name)
    then show ?thesis by (simp add: plain_comp_cret')
  next
    case (TArray t')
    then show ?thesis
      by (auto intro!: plain_comp_cbind [where f = plainify] Suc plain_comp_cret')
  next
    case (RestType typeSpec start)
    have 1: "plain_comp id (case typeSpec of Inl name \<Rightarrow> getNamedType suite name | Inr t \<Rightarrow> cret (Some t))
                          (case typeSpec of Inl name \<Rightarrow> getNamedType suite name | Inr t \<Rightarrow> cret (Some t))"
      by (cases typeSpec) (simp_all add: plain_comp_cret')
    have 3: "plain_comp plainify
         (case arrType of
           TArray ttype \<Rightarrow>
             cbind (getChecker n suite True False None ttype) (\<lambda>itemChecker. cret (CRest itemChecker start))
         | _ \<Rightarrow> cthrow (Error ''Rest type must be an array''))
         (case arrType of
           TArray ttype \<Rightarrow>
             cbind (getChecker n suite False False None ttype) (\<lambda>itemChecker. cret (CRest itemChecker start))
         | _ \<Rightarrow> cthrow (Error ''Rest type must be an array''))" for arrType
      by (cases arrType)
         (auto intro!: plain_comp_cbind [where f = plainify] Suc plain_comp_cret' plain_comp_cthrow)
    have 2: "plain_comp plainify
         (case named of
           Some (TArray ttype) \<Rightarrow>
             cbind (getChecker n suite True False None ttype) (\<lambda>itemChecker. cret (CRest itemChecker start))
         | _ \<Rightarrow> cthrow (Error ''Rest type must be an array''))
         (case named of
           Some (TArray ttype) \<Rightarrow>
             cbind (getChecker n suite False False None ttype) (\<lambda>itemChecker. cret (CRest itemChecker start))
         | _ \<Rightarrow> cthrow (Error ''Rest type must be an array''))" for named
      using 3 by (cases named) (simp_all add: plain_comp_cthrow)
    from RestType show ?thesis
      by (simp del: plain_comp_state) (rule plain_comp_cbind_id [OF 1 2])
  next
    case (TTuple ts r)
    have 2: "plain_comp plainify
          (case r of
             Some r \<Rightarrow> cbind (getChecker n suite True False None r) (\<lambda>restChecker.
                 cret (CTupleRest itemCheckers restChecker))
           | None \<Rightarrow> cret (if \<not> True then CTuple itemCheckers else CTupleStrict itemCheckers))
          (case r of
             Some r \<Rightarrow> cbind (getChecker n suite False False None r) (\<lambda>restChecker.
                 cret (CTupleRest (map plainify itemCheckers) restChecker))
           | None \<Rightarrow> cret (if \<not> False then CTuple (map plainify itemCheckers)
                            else CTupleStrict (map plainify itemCheckers)))" for itemCheckers
      by (cases r) (auto intro!: plain_comp_cbind [where f = plainify] Suc plain_comp_cret')
    from TTuple show ?thesis
      apply (simp only: getChecker.simps)
      apply (rule plain_comp_cbind [where f = "map plainify", OF plain_comp_cmap [OF Suc]])
      apply (rule 2)
      done
  next
    case (TUnion ts)
    then show ?thesis
      apply (simp only: getChecker.simps)
      apply (rule plain_comp_cbind [where f = "map plainify", OF plain_comp_cmap [OF Suc]])
      apply (rule plain_comp_cret', simp)
      done
  next
    case (TIntersection ts)
    then show ?thesis
      apply (simp only: getChecker.simps)
      apply (rule plain_comp_cbind_id, simp)
      apply (rule plain_comp_cbind [where f = "map plainify", OF plain_comp_cmap [OF Suc]])
      apply (rule plain_comp_cret', simp)
      done
  next
    case (TPartial t')
    then show ?thesis
      by (auto intro!: plain_comp_cbind [where f = plainify] Suc plain_comp_cret')
  next
    case (TEnumType members)
    then show ?thesis by (simp add: plain_comp_cret')
  next
    case (TEnumLiteral enumName member)
    have 3: "plain_comp plainify
       (case ttype of
         TEnumType members \<Rightarrow>
           if map_of members ''hasOwnProperty'' \<noteq> None
           then cthrow (TypeError ''ttype.members.hasOwnProperty is not a function'')
           else if map_of members member = None
           then cthrow (Error (''Unknown value '' @ enumName @ ''.'' @ member @ '' used in enumlit''))
           else cret (CEnumLiteral (member_value members member) (''is not '' @ enumName @ ''.'' @ member))
       | _ \<Rightarrow> cthrow (Error (''Type '' @ enumName @ '' used in enumlit is not an enum type'')))
       (case ttype of
         TEnumType members \<Rightarrow>
           if map_of members ''hasOwnProperty'' \<noteq> None
           then cthrow (TypeError ''ttype.members.hasOwnProperty is not a function'')
           else if map_of members member = None
           then cthrow (Error (''Unknown value '' @ enumName @ ''.'' @ member @ '' used in enumlit''))
           else cret (CEnumLiteral (member_value members member) (''is not '' @ enumName @ ''.'' @ member))
       | _ \<Rightarrow> cthrow (Error (''Type '' @ enumName @ '' used in enumlit is not an enum type'')))" for ttype
      by (cases ttype) (auto intro!: plain_comp_cret' plain_comp_cthrow)
    have 2: "plain_comp plainify
       (case named of
         Some (TEnumType members) \<Rightarrow>
           if map_of members ''hasOwnProperty'' \<noteq> None
           then cthrow (TypeError ''ttype.members.hasOwnProperty is not a function'')
           else if map_of members member = None
           then cthrow (Error (''Unknown value '' @ enumName @ ''.'' @ member @ '' used in enumlit''))
           else cret (CEnumLiteral (member_value members member) (''is not '' @ enumName @ ''.'' @ member))
       | _ \<Rightarrow> cthrow (Error (''Type '' @ enumName @ '' used in enumlit is not an enum type'')))
       (case named of
         Some (TEnumType members) \<Rightarrow>
           if map_of members ''hasOwnProperty'' \<noteq> None
           then cthrow (TypeError ''ttype.members.hasOwnProperty is not a function'')
           else if map_of members member = None
           then cthrow (Error (''Unknown value '' @ enumName @ ''.'' @ member @ '' used in enumlit''))
           else cret (CEnumLiteral (member_value members member) (''is not '' @ enumName @ ''.'' @ member))
       | _ \<Rightarrow> cthrow (Error (''Type '' @ enumName @ '' used in enumlit is not an enum type'')))" for named
      using 3 by (cases named) (simp_all add: plain_comp_cthrow)
    from TEnumLiteral show ?thesis
      apply (simp only: getChecker.simps)
      apply (rule plain_comp_cbind_id, simp)
      apply (rule 2)
      done
  next
    case (TOptional t')
    then show ?thesis
      by (auto intro!: plain_comp_cbind [where f = plainify] Suc plain_comp_cret')
  next
    case (TFunc params result)
    then show ?thesis by (simp add: plain_comp_cret')
  next
    case (TParamList params)
    have p: "plain_comp plainify (case x of (name, ttype, isOpt) \<Rightarrow> getChecker n suite True False None ttype)
              (case x of (name, ttype, isOpt) \<Rightarrow> getChecker n suite False False None ttype)"
      for x :: "string \<times> ttype \<times> bool"
      by (cases x) (simp add: Suc)
    from TParamList show ?thesis
      apply (simp only: getChecker.simps)
      apply (rule plain_comp_cbind [where f = "map plainify", OF plain_comp_cmap [OF p]])
      apply (rule plain_comp_cbind_id, rule plain_comp_probe)
      apply (rule plain_comp_cret', simp add: zip_plainify)
      done
  next
    case (TIface bases props idx)
    have b: "plain_comp plainify
               (cbind (getNamedType suite x) (\<lambda>named.
                  cbind (the_type ''getNamedType(...)'' named) (getChecker n suite True isP (Some a))))
               (cbind (getNamedType suite x) (\<lambda>named.
                  cbind (the_type ''getNamedType(...)'' named) (getChecker n suite False isP (Some a))))" for x a
      by (rule plain_comp_cbind_id, simp, rule plain_comp_cbind_id, simp, rule Suc)
    have p: "plain_comp plainify (case x of (name, ttype, isOpt) \<Rightarrow> getChecker n suite True isP None ttype)
              (case x of (name, ttype, isOpt) \<Rightarrow> getChecker n suite False isP None ttype)"
      for x :: "string \<times> ttype \<times> bool"
      by (cases x) (simp add: Suc)
    have i: "plain_comp (map_option plainify)
         (case idx of None \<Rightarrow> cret None
          | Some t \<Rightarrow> cbind (getChecker n suite True isP None t) (\<lambda>k. cret (Some k)))
         (case idx of None \<Rightarrow> cret None
          | Some t \<Rightarrow> cbind (getChecker n suite False isP None t) (\<lambda>k. cret (Some k)))"
      by (cases idx) (auto intro!: plain_comp_cbind [where f = plainify] Suc plain_comp_cret')
    from TIface show ?thesis
      apply (simp only: getChecker.simps)
      apply (rule plain_comp_cbind_id, simp)
      apply (rule plain_comp_cbind_id, simp)
      apply (rule plain_comp_cbind [where f = "map plainify", OF plain_comp_cmap [OF b]])
      apply (rule plain_comp_cbind [where f = "map plainify", OF plain_comp_cmap [OF p]])
      apply (rule plain_comp_cbind [where f = "map_option plainify", OF i])
      apply (rule plain_comp_cbind_id, rule plain_comp_probe)
      apply (rule plain_comp_cret', simp add: zip_plainify)
      done
  qed
qed

section \<open>Strict and plain calls\<close>

lemma not_false_simps [simp]:
  "not_false None"
  "not_false (Some (Inl e))"
  "not_false (Some (Inr (ok, c))) = ok"
  "not_false (ret (ok, c)) = ok"
  "not_false (throw e)"
  by (simp_all add: not_false_def ret_def throw_def)

lemma sim_step:
  assumes strict: "bind ms gs = Some (Inr (True, c))"
    and ms: "noop_result False ms"
    and gsF: "gs (False, NoopContext True) \<noteq> Some (Inr (True, c))"
    and sim: "ms = Some (Inr (True, NoopContext False)) \<Longrightarrow> not_false mp"
    and mp: "noop_result False mp"
    and cont: "gs (True, NoopContext False) = Some (Inr (True, c)) \<Longrightarrow> not_false (gp (True, NoopContext False))"
  shows "not_false (bind mp gp)"
proof -
  from strict obtain x where x: "ms = Some (Inr x)" and g: "gs x = Some (Inr (True, c))"
    by (auto simp: bind_eq_ret)
  obtain ok1 c1 where x1: "x = (ok1, c1)" by (cases x)
  from noop_resultD [OF ms x [unfolded x1]] have c1: "c1 = NoopContext (\<not> ok1)" by simp
  have ok1: ok1 using g gsF x1 c1 by (cases ok1) auto
  with x x1 c1 have msT: "ms = Some (Inr (True, NoopContext False))" by simp
  from sim [OF msT] have nf: "not_false mp" .
  show ?thesis
  proof (cases mp)
    case None then show ?thesis by simp
  next
    case (Some y)
    show ?thesis
    proof (cases y)
      case (Inl e) with Some show ?thesis by simp
    next
      case (Inr z)
      obtain ok' c' where z: "z = (ok', c')" by (cases z)
      from nf Some Inr z have ok' by simp
      from noop_resultD [OF mp] Some Inr z \<open>ok'\<close> have "c' = NoopContext False" by auto
      with Some Inr z \<open>ok'\<close> g x1 ok1 c1 cont show ?thesis by simp
    qed
  qed
qed

lemma array_loop_sim:
  assumes "noop_call1 s" "noop_call1 p"
    and "\<And>x c. s x (NoopContext False) = Some (Inr (True, c)) \<Longrightarrow> not_false (p x (NoopContext False))"
  shows "array_loop s xs i (NoopContext False) = Some (Inr (True, c)) \<Longrightarrow>
         not_false (array_loop p xs i (NoopContext False))"
proof (induction xs arbitrary: i)
  case Nil show ?case by simp
next
  case (Cons x xs)
  show ?case
    unfolding array_loop.simps
    apply (rule sim_step [OF Cons.prems [unfolded array_loop.simps]])
    apply (rule noop_call1_result [OF assms(1)])
    apply (simp add: failing_def ret_def)
    apply (erule assms(3))
    apply (rule noop_call1_result [OF assms(2)])
    apply (simp add: Cons.IH)
    done
qed


lemma sim_callD:
  "sim_call S P \<Longrightarrow> S k v (NoopContext False) = Some (Inr (True, c)) \<Longrightarrow>
   not_false (P (plainify k) v (NoopContext False))"
  by (auto simp: sim_call_def)

lemma tuple_loop_sim:
  assumes "noop_call S" "noop_call P" "sim_call S P"
  shows "tuple_loop S ks xs i (NoopContext False) = Some (Inr (True, c)) \<Longrightarrow>
         not_false (tuple_loop P (map plainify ks) xs i (NoopContext False))"
proof (induction ks arbitrary: i)
  case Nil show ?case by simp
next
  case (Cons k ks)
  show ?case
    unfolding tuple_loop.simps list.map
    apply (rule sim_step [OF Cons.prems [unfolded tuple_loop.simps]])
    apply (rule noop_call_result [OF assms(1)])
    apply (simp add: failing_def ret_def)
    apply (erule sim_callD [OF assms(3)])
    apply (rule noop_call_result [OF assms(2)])
    apply (simp add: Cons.IH)
    done
qed

lemma tuple_check_sim:
  assumes "noop_call S" "noop_call P" "sim_call S P"
  shows "tuple_check S ks v (NoopContext False) = Some (Inr (True, c)) \<Longrightarrow>
         not_false (tuple_check P (map plainify ks) v (NoopContext False))"
  using tuple_loop_sim [OF assms]
  by (auto simp: tuple_check_def failing_def ret_def split: if_splits)

lemma params_loop_sim:
  assumes "noop_call S" "noop_call P" "sim_call S P"
  shows "params_loop S ps xs i (NoopContext False) = Some (Inr (True, c)) \<Longrightarrow>
         not_false (params_loop P (map (map_prod id (map_prod plainify id)) ps) xs i (NoopContext False))"
proof (induction ps arbitrary: i)
  case Nil show ?case by simp
next
  case (Cons q ps)
  obtain name pc req where q: "q = (name, pc, req)" by (cases q) auto
  show ?case
  proof (cases "arr_index xs i = VUndefined")
    case True
    with Cons.prems Cons.IH show ?thesis
      by (auto simp: q failing_def ret_def split: if_splits)
  next
    case False
    from Cons.prems False have st: "bind (S pc (arr_index xs i) (NoopContext False)) (\<lambda>(ok, c').
          if \<not> ok then failing (PName name) None 1 c' else params_loop S ps xs (Suc i) c')
        = Some (Inr (True, c))"
      by (simp add: q)
    have "not_false (bind (P (plainify pc) (arr_index xs i) (NoopContext False)) (\<lambda>(ok, c').
          if \<not> ok then failing (PName name) None 1 c'
          else params_loop P (map (map_prod id (map_prod plainify id)) ps) xs (Suc i) c'))"
      apply (rule sim_step [OF st])
      apply (rule noop_call_result [OF assms(1)])
      apply (simp add: failing_def ret_def)
      apply (erule sim_callD [OF assms(3)])
      apply (rule noop_call_result [OF assms(2)])
      apply (simp add: Cons.IH)
      done
    with False show ?thesis by (simp add: q id_def cong: if_cong prod.case_cong bool.case_cong)
  qed
qed

lemma params_check_sim:
  assumes "noop_call S" "noop_call P" "sim_call S P"
  shows "params_check S ps v (NoopContext False) = Some (Inr (True, c)) \<Longrightarrow>
         not_false (params_check P (map (map_prod id (map_prod plainify id)) ps) v (NoopContext False))"
  using params_loop_sim [OF assms]
  by (auto simp: params_check_def failing_def ret_def split: if_splits)

lemma unfailed_simps [simp]:
  "unfailed None"
  "unfailed (Some (Inl e))"
  "unfailed (Some (Inr (ok, c))) \<longleftrightarrow> c = NoopContext False"
  "unfailed (ret (ok, c)) \<longleftrightarrow> c = NoopContext False"
  "unfailed (throw e)"
  by (simp_all add: unfailed_def ret_def throw_def)

lemma unfailed_cases:
  assumes "unfailed r" and "noop_loop False r"
  obtains "r = None" | e where "r = Some (Inl e)" | "r = Some (Inr (True, NoopContext False))"
proof (cases r)
  case None then show ?thesis by (rule that(1))
next
  case (Some y)
  show ?thesis
  proof (cases y)
    case (Inl e) with Some show ?thesis by (intro that(2)) simp
  next
    case (Inr z)
    obtain ok c where "z = (ok, c)" by (cases z)
    with Some Inr assms show ?thesis by (intro that(3)) (auto dest: noop_loopD)
  qed
qed

lemma fork_sim_step:
  assumes strict: "bind ms (\<lambda>(ok, child).
           case completeFork (NoopContext False) (h ok child) of
             (True, c') \<Rightarrow> ls c'
           | (False, c') \<Rightarrow> ret (False, c')) = Some (Inr (ok0, NoopContext False))"
    and ms: "noop_result False ms" and mp: "noop_result False mp"
    and ls: "\<And>g. noop_loop g (ls (NoopContext g))"
    and h: "\<And>ok. h ok (NoopContext (\<not> ok)) = NoopContext (\<not> ok)"
    and sim: "\<And>c. ms = Some (Inr (True, c)) \<Longrightarrow> not_false mp"
    and cont: "\<And>ok. ls (NoopContext False) = Some (Inr (ok, NoopContext False)) \<Longrightarrow> unfailed (lp (NoopContext False))"
  shows "unfailed (bind mp (\<lambda>(ok, child).
           case completeFork (NoopContext False) (h ok child) of
             (True, c') \<Rightarrow> lp c'
           | (False, c') \<Rightarrow> ret (False, c')))"
proof -
  from strict obtain ok1 child1 where m: "ms = Some (Inr (ok1, child1))"
    and r: "(case completeFork (NoopContext False) (h ok1 child1) of
             (True, c') \<Rightarrow> ls c'
           | (False, c') \<Rightarrow> ret (False, c')) = Some (Inr (ok0, NoopContext False))"
    by (auto simp: bind_eq_ret)
  from noop_resultD [OF ms m] have c1: "child1 = NoopContext (\<not> ok1)" by simp
  with r h [of ok1] have l: "ls (NoopContext (\<not> ok1)) = Some (Inr (ok0, NoopContext False))" by simp
  from noop_loopD [OF ls l] have ok1: ok1 by auto
  with l have l': "ls (NoopContext False) = Some (Inr (ok0, NoopContext False))" by simp
  from sim m ok1 have nf: "not_false mp" by simp
  show ?thesis
  proof (cases mp)
    case None then show ?thesis by simp
  next
    case (Some y)
    show ?thesis
    proof (cases y)
      case (Inl e) with Some show ?thesis by simp
    next
      case (Inr z)
      obtain ok' c' where z: "z = (ok', c')" by (cases z)
      from nf Some Inr z have ok' by simp
      from noop_resultD [OF mp] Some Inr z \<open>ok'\<close> have "c' = NoopContext False" by auto
      with Some Inr z \<open>ok'\<close> h [of True] cont [OF l'] show ?thesis by simp
    qed
  qed
qed

lemma every_loop_sim:
  assumes "noop_call S" "noop_call P" "sim_call S P"
  shows "every_loop S ks v (NoopContext False) = Some (Inr (ok, NoopContext False)) \<Longrightarrow>
         unfailed (every_loop P (map plainify ks) v (NoopContext False))"
proof (induction ks arbitrary: ok)
  case Nil show ?case by simp
next
  case (Cons k ks)
  show ?case
    unfolding every_loop.simps list.map fork.simps
    apply (rule fork_sim_step [where h = "\<lambda>ok child. child" and ls = "every_loop S ks v",
          OF Cons.prems [unfolded every_loop.simps fork.simps]])
    apply (rule noop_call_result [OF assms(1)])
    apply (rule noop_call_result [OF assms(2)])
    apply (rule every_loop_noop [OF assms(1)])
    apply simp
    apply (erule sim_callD [OF assms(3)])
    apply (erule Cons.IH)
    done
qed

lemma iface_bases_sim:
  assumes "noop_call S" "noop_call P" "sim_call S P"
  shows "iface_bases S ks v (NoopContext False) = Some (Inr (ok, NoopContext False)) \<Longrightarrow>
         unfailed (iface_bases P (map plainify ks) v (NoopContext False))"
proof (induction ks arbitrary: ok)
  case Nil show ?case by simp
next
  case (Cons k ks)
  show ?case
    unfolding iface_bases.simps list.map fork.simps
    apply (rule fork_sim_step [where h = "\<lambda>ok child. child" and ls = "iface_bases S ks v",
          OF Cons.prems [unfolded iface_bases.simps fork.simps]])
    apply (rule noop_call_result [OF assms(1)])
    apply (rule noop_call_result [OF assms(2)])
    apply (rule iface_bases_noop [OF assms(1)])
    apply simp
    apply (erule sim_callD [OF assms(3)])
    apply (erule Cons.IH)
    done
qed

lemma iface_index_sim:
  assumes "noop_call1 s" "noop_call1 p"
    and "\<And>x c. s x (NoopContext False) = Some (Inr (True, c)) \<Longrightarrow> not_false (p x (NoopContext False))"
  shows "iface_index s v ks (NoopContext False) = Some (Inr (ok, NoopContext False)) \<Longrightarrow>
         unfailed (iface_index p v ks (NoopContext False))"
proof (induction ks arbitrary: ok)
  case Nil show ?case by simp
next
  case (Cons k ks)
  show ?case
    unfolding iface_index.simps fork.simps
    apply (rule fork_sim_step [where h = "\<lambda>ok child. if \<not> ok then fail (PName k) None 1 child else child"
          and ls = "iface_index s v ks", OF Cons.prems [unfolded iface_index.simps fork.simps]])
    apply (rule noop_call1_result [OF assms(1)])
    apply (rule noop_call1_result [OF assms(2)])
    apply (rule iface_index_noop [OF assms(1)])
    apply simp
    apply (erule assms(3))
    apply (erule Cons.IH)
    done
qed

lemma iface_props_sim:
  assumes "noop_call S" "noop_call P" "sim_call S P"
  shows "iface_props S isP ps v (NoopContext False) = Some (Inr (ok, NoopContext False)) \<Longrightarrow>
         unfailed (iface_props P isP (map (map_prod id (map_prod plainify id)) ps) v (NoopContext False))"
proof (induction ps arbitrary: ok)
  case Nil show ?case by simp
next
  case (Cons q ps)
  obtain name pc req where q: "q = (name, pc, req)" by (cases q) auto
  show ?case
  proof (cases "get_member v name = VUndefined")
    case True
    show ?thesis
    proof (cases "req \<and> \<not> isP")
      case True
      with \<open>get_member v name = VUndefined\<close> Cons.prems
      have "iface_props S isP ps v (NoopContext True) = Some (Inr (ok, NoopContext False))"
        by (simp add: q)
      from noop_loopD [OF iface_props_noop [OF assms(1)] this] show ?thesis by simp
    next
      case False
      with \<open>get_member v name = VUndefined\<close> Cons.prems Cons.IH [of ok] show ?thesis
        by (auto simp: q)
    qed
  next
    case False
    from Cons.prems False have st: "bind (S pc (get_member v name) (NoopContext False)) (\<lambda>(ok, child).
          case completeFork (NoopContext False) (if \<not> ok then fail (PName name) None 1 child else child) of
            (True, c') \<Rightarrow> iface_props S isP ps v c'
          | (False, c') \<Rightarrow> ret (False, c'))
        = Some (Inr (ok, NoopContext False))"
      by (simp add: q)
    have "unfailed (bind (P (plainify pc) (get_member v name) (NoopContext False)) (\<lambda>(ok, child).
          case completeFork (NoopContext False) (if \<not> ok then fail (PName name) None 1 child else child) of
            (True, c') \<Rightarrow> iface_props P isP (map (map_prod id (map_prod plainify id)) ps) v c'
          | (False, c') \<Rightarrow> ret (False, c')))"
      apply (rule fork_sim_step [where h = "\<lambda>ok child. if \<not> ok then fail (PName name) None 1 child else child"
          and ls = "iface_props S isP ps v", OF st])
      apply (rule noop_call_result [OF assms(1)])
      apply (rule noop_call_result [OF assms(2)])
      apply (rule iface_props_noop [OF assms(1)])
      apply simp
      apply (erule sim_callD [OF assms(3)])
      apply (erule Cons.IH)
      done
    with False show ?thesis by (simp add: q id_def cong: if_cong prod.case_cong bool.case_cong)
  qed
qed

lemma union_loop_sim:
  assumes "sim_call S P"
  shows "union_loop S ks v (UnionResolver True cs) = Some (Inr None) \<Longrightarrow>
         union_loop P (map plainify ks) v (UnionResolver True cs') \<noteq> Some (Inr (Some ur'))"
proof (induction ks arbitrary: cs cs')
  case Nil then show ?case by (simp add: ret_def)
next
  case (Cons k ks)
  from Cons.prems obtain ok1 c1 where 1: "S k v (NoopContext False) = Some (Inr (ok1, c1))"
    and 2: "(if ok1 then ret None else union_loop S ks v (keepContext (UnionResolver True cs) c1)) = Some (Inr None)"
    by (auto simp: bind_eq_ret)
  show ?case
  proof (cases "P (plainify k) v (NoopContext False)")
    case None then show ?thesis by simp
  next
    case (Some y)
    show ?thesis
    proof (cases y)
      case (Inl e) with Some show ?thesis by simp
    next
      case (Inr z)
      obtain ok' c' where z: "z = (ok', c')" by (cases z)
      show ?thesis
      proof (cases ok')
        case True with Some Inr z show ?thesis by (simp add: ret_def)
      next
        case False
        with Some Inr z sim_callD [OF assms, of k v c1] 1 have "\<not> ok1" by (cases ok1) auto
        with 2 have "union_loop S ks v (UnionResolver True (cs @ [c1])) = Some (Inr None)" by simp
        from Cons.IH [OF this] Some Inr z False show ?thesis by simp
      qed
    qed
  qed
qed

section \<open>Strict mode and plain mode\<close>

lemma iface_keys_sim:
  assumes "noop_call S" "noop_call P" "sim_call S P"
  shows "iface_keys S h ic strict a v (NoopContext False) = Some (Inr (ok, NoopContext False)) \<Longrightarrow>
         unfailed (iface_keys P h' (map_option plainify ic) False a v (NoopContext False))"
proof (cases ic)
  case None then show ?thesis by (simp add: iface_keys_def)
next
  case (Some i)
  assume "iface_keys S h ic strict a v (NoopContext False) = Some (Inr (ok, NoopContext False))"
  with Some have "iface_index (S i) v (map fst (own_entries v)) (NoopContext False) = Some (Inr (ok, NoopContext False))"
    by (simp add: iface_keys_def)
  from iface_index_sim [where s = "S i" and p = "P (plainify i)", OF noop_call_call1 [OF assms(1)]
      noop_call_call1 [OF assms(2)] sim_callD [OF assms(3)] this] Some
  show ?thesis by (simp add: iface_keys_def)
qed

lemma iface_loops_sim:
  assumes "noop_call S" "noop_call P" "sim_call S P"
    and st: "bind (iface_bases S bs v (NoopContext False)) (\<lambda>(ok, c1).
          if \<not> ok then ret (False, c1)
          else bind (iface_props S isP ps v c1) (\<lambda>(ok, c2).
            if \<not> ok then ret (False, c2)
            else iface_keys S h ic strict a v c2)) = Some (Inr (ok, NoopContext False))"
  shows "unfailed (bind (iface_bases P (map plainify bs) v (NoopContext False)) (\<lambda>(ok, c1).
          if \<not> ok then ret (False, c1)
          else bind (iface_props P isP (map (map_prod id (map_prod plainify id)) ps) v c1) (\<lambda>(ok, c2).
            if \<not> ok then ret (False, c2)
            else iface_keys P h' (map_option plainify ic) False a v c2)))"
proof -
  from st obtain ok1 c1 where b: "iface_bases S bs v (NoopContext False) = Some (Inr (ok1, c1))"
    and r1: "(if \<not> ok1 then ret (False, c1)
          else bind (iface_props S isP ps v c1) (\<lambda>(ok, c2).
            if \<not> ok then ret (False, c2)
            else iface_keys S h ic strict a v c2)) = Some (Inr (ok, NoopContext False))"
    by (auto simp: bind_eq_ret)
  from noop_loopD [OF iface_bases_noop [OF assms(1)] b] obtain g1 where g1: ok1 "c1 = NoopContext g1" by auto
  with r1 obtain ok2 c2 where p: "iface_props S isP ps v (NoopContext g1) = Some (Inr (ok2, c2))"
    and r2: "(if \<not> ok2 then ret (False, c2) else iface_keys S h ic strict a v c2) = Some (Inr (ok, NoopContext False))"
    by (auto simp: bind_eq_ret)
  from noop_loopD [OF iface_props_noop [OF assms(1)] p] obtain g2 where g2: ok2 "c2 = NoopContext g2" "g1 \<longrightarrow> g2"
    by auto
  with r2 have k: "iface_keys S h ic strict a v (NoopContext g2) = Some (Inr (ok, NoopContext False))" by simp
  from noop_loopD [OF iface_keys_noop [OF assms(1)] k] have "\<not> g2" by auto
  with g2 have "\<not> g1" by simp
  from b g1 \<open>\<not> g1\<close> have b': "iface_bases S bs v (NoopContext False) = Some (Inr (ok1, NoopContext False))" by simp
  from p g2 \<open>\<not> g1\<close> \<open>\<not> g2\<close>
  have p': "iface_props S isP ps v (NoopContext False) = Some (Inr (ok2, NoopContext False))" by simp
  from k \<open>\<not> g2\<close> have k': "iface_keys S h ic strict a v (NoopContext False) = Some (Inr (ok, NoopContext False))"
    by simp
  have ub: "unfailed (iface_bases P (map plainify bs) v (NoopContext False))"
    by (rule iface_bases_sim [OF assms(1-3) b'])
  have up: "unfailed (iface_props P isP (map (map_prod id (map_prod plainify id)) ps) v (NoopContext False))"
    by (rule iface_props_sim [OF assms(1-3) p'])
  have uk: "unfailed (iface_keys P h' (map_option plainify ic) False a v (NoopContext False))"
    by (rule iface_keys_sim [OF assms(1-3) k'])
  show ?thesis
  proof (rule unfailed_cases [OF ub iface_bases_noop [OF assms(2)]], goal_cases)
    case 1 then show ?case by simp
  next
    case (2 e) then show ?case by simp
  next
    case 3
    show ?case
    proof (rule unfailed_cases [OF up iface_props_noop [OF assms(2)]], goal_cases)
      case 1 with 3 show ?case by simp
    next
      case (2 e) with 3 show ?case by simp
    next
      case 3
      with \<open>iface_bases P (map plainify bs) v (NoopContext False) = Some (Inr (True, NoopContext False))\<close> uk
      show ?case by simp
    qed
  qed
qed

lemma iface_check_sim:
  assumes "noop_call S" "noop_call P" "sim_call S P"
    and st: "iface_check S h bs ps isP ic strict a v (NoopContext False) = Some (Inr (True, c))"
  shows "not_false (iface_check P h' (map plainify bs) (map (map_prod id (map_prod plainify id)) ps) isP
            (map_option plainify ic) False a v (NoopContext False))"
proof (cases "\<not> typeof_object v \<or> v = VNull")
  case True
  with st show ?thesis by (auto simp: iface_check_def failing_def ret_def)
next
  case False
  let ?LS = "bind (iface_bases S bs v (NoopContext False)) (\<lambda>(ok, c1).
          if \<not> ok then ret (False, c1)
          else bind (iface_props S isP ps v c1) (\<lambda>(ok, c2).
            if \<not> ok then ret (False, c2)
            else iface_keys S h ic strict a v c2))"
  let ?LP = "bind (iface_bases P (map plainify bs) v (NoopContext False)) (\<lambda>(ok, c1).
          if \<not> ok then ret (False, c1)
          else bind (iface_props P isP (map (map_prod id (map_prod plainify id)) ps) v c1) (\<lambda>(ok, c2).
            if \<not> ok then ret (False, c2)
            else iface_keys P h' (map_option plainify ic) False a v c2))"
  from st False obtain ok3 c3 where l: "?LS = Some (Inr (ok3, c3))" and f: "\<not> failed c3"
    by (auto simp: iface_check_unfold bind_eq_ret ret_def)
  from noop_loopD [OF iface_loops_noop [OF assms(1)] l] f have "c3 = NoopContext False" by auto
  with l have "?LS = Some (Inr (ok3, NoopContext False))" by simp
  from iface_loops_sim [OF assms(1-3) this] have u: "unfailed ?LP" .
  have n: "noop_loop False ?LP" by (rule iface_loops_noop [OF assms(2)])
  have "not_false (bind ?LP (\<lambda>(ok, c3). ret (ok \<and> \<not> failed c3, c3)))"
    by (rule unfailed_cases [OF u n]) simp_all
  with False show ?thesis by (simp add: iface_check_unfold)
qed

lemma strict_length_True:
  "bind m (strict_length n v) = Some (Inr (True, c)) \<Longrightarrow> m = Some (Inr (True, c))"
  by (auto simp: bind_eq_ret strict_length_def failing_def ret_def split: if_splits)


lemma run_sim: "sim_call (run n h) (run n (plain_store h))"
proof (induction n)
  case 0
  show ?case by (simp add: sim_call_def)
next
  case (Suc n)
  let ?S = "run n h" and ?P = "run n (plain_store h)"
  note nS = run_noop [of n h] and nP = run_noop [of n "plain_store h"]
  have "not_false (run (Suc n) (plain_store h) (plainify k) v (NoopContext False))"
    if st: "run (Suc n) h k v (NoopContext False) = Some (Inr (True, c))" for k v c
  proof (cases k)
    case (CBasic p m)
    with st show ?thesis by (auto simp: failing_def ret_def split: if_splits)
  next
    case (CLiteral val m)
    with st show ?thesis by (auto simp: failing_def ret_def split: if_splits)
  next
    case (CEnumLiteral val m)
    with st show ?thesis by (auto simp: failing_def ret_def split: if_splits)
  next
    case (CEnumType vals m)
    with st show ?thesis by (auto simp: failing_def ret_def split: if_splits)
  next
    case CFunc
    with st show ?thesis by (auto simp: failing_def ret_def split: if_splits)
  next
    case (CTramp a)
    with st obtain k' where "map_of (cells h) a = Some k'" and "?S k' v (NoopContext False) = Some (Inr (True, c))"
      by (auto simp: throw_def split: option.splits)
    with sim_callD [OF Suc] CTramp map_of_plain_cells [of h a] show ?thesis
      by (simp del: map_of_map)
  next
    case (CName k' m)
    from st CName have s1: "bind (?S k' v (NoopContext False))
        (\<lambda>(ok, c'). if ok then ret (True, c') else failing PNone (Some m) 0 c') = Some (Inr (True, c))"
      by simp
    have "not_false (bind (?P (plainify k') v (NoopContext False))
        (\<lambda>(ok, c'). if ok then ret (True, c') else failing PNone (Some m) 0 c'))"
      apply (rule sim_step [OF s1])
      apply (rule noop_call_result [OF nS])
      apply (simp add: failing_def ret_def)
      apply (erule sim_callD [OF Suc])
      apply (rule noop_call_result [OF nP])
      apply simp
      done
    with CName show ?thesis by simp
  next
    case (CArray k')
    with st have "array_loop (?S k') (elems v) 0 (NoopContext False) = Some (Inr (True, c))" and "isArray v"
      by (auto simp: failing_def ret_def split: if_splits)
    with array_loop_sim [where s = "?S k'" and p = "?P (plainify k')", OF noop_call_call1 [OF nS]
        noop_call_call1 [OF nP] sim_callD [OF Suc]] CArray
    show ?thesis by simp
  next
    case (CRest k' start)
    show ?thesis
    proof (cases "js_length v")
      case (Inl e)
      with st CRest show ?thesis by (simp add: rest_loop_def throw_def)
    next
      case (Inr len)
      show ?thesis
      proof (cases "to_bound len")
        case None
        with Inr CRest show ?thesis by (simp add: rest_loop_def)
      next
        case (Some y)
        show ?thesis
        proof (cases y)
          case (Inl e)
          with Some Inr CRest show ?thesis by (simp add: rest_loop_def)
        next
          case b: (Inr b)
          show ?thesis
          proof (cases start)
            case None
            with b Some Inr CRest show ?thesis by (simp add: rest_loop_def)
          next
            case s: (Some s)
            show ?thesis
            proof (cases b)
              case (Below m)
              with st s b Some Inr CRest
              have "array_loop (?S k') (map (js_at v) [s..<m]) s (NoopContext False) = Some (Inr (True, c))"
                by (simp add: rest_loop_def)
              with array_loop_sim [where s = "?S k'" and p = "?P (plainify k')", OF noop_call_call1 [OF nS]
                  noop_call_call1 [OF nP] sim_callD [OF Suc]] Below s b Some Inr CRest
              show ?thesis by (simp add: rest_loop_def)
            next
              case Unbounded
              with st s b Some Inr CRest
              have "unbounded_loop (?S k') (js_at v) s (NoopContext False) = Some (Inr (True, c))"
                by (simp add: rest_loop_def)
              from unbounded_loop_False [OF this] show ?thesis by blast
            qed
          qed
        qed
      qed
    qed
  next
    case (CTuple ks)
    with st tuple_check_sim [OF nS nP Suc] show ?thesis by simp
  next
    case (CTupleRest ks r)
    from st CTupleRest have s1: "bind (tuple_check ?S ks v (NoopContext False))
        (\<lambda>(ok, c'). if ok then ?S r v c' else ret (False, c')) = Some (Inr (True, c))"
      by simp
    have "not_false (bind (tuple_check ?P (map plainify ks) v (NoopContext False))
        (\<lambda>(ok, c'). if ok then ?P (plainify r) v c' else ret (False, c')))"
      apply (rule sim_step [OF s1])
      apply (rule tuple_check_noop [OF nS])
      apply (simp add: ret_def)
      apply (erule tuple_check_sim [OF nS nP Suc])
      apply (rule tuple_check_noop [OF nP])
      apply (simp add: sim_callD [OF Suc])
      done
    with CTupleRest show ?thesis by simp
  next
    case (CTupleStrict ks)
    with st have "tuple_check ?S ks v (NoopContext False) = Some (Inr (True, c))"
      by (auto dest: strict_length_True)
    with tuple_check_sim [OF nS nP Suc] CTupleStrict show ?thesis by simp
  next
    case (CUnion ks m)
    with st have u: "union_loop ?S ks v (UnionResolver True []) = Some (Inr None)"
      by (auto simp: bind_eq_ret failing_def ret_def split: option.splits)
    show ?thesis
    proof (cases "union_loop ?P (map plainify ks) v (UnionResolver True [])")
      case None with CUnion show ?thesis by simp
    next
      case (Some y)
      show ?thesis
      proof (cases y)
        case (Inl e) with Some CUnion show ?thesis by simp
      next
        case (Inr z)
        with Some union_loop_sim [OF Suc u, of "[]"] have "z = None" by (cases z) auto
        with Some Inr CUnion show ?thesis by simp
      qed
    qed
  next
    case (CIntersection ks)
    from st CIntersection obtain ok1 c1 where
      l: "every_loop ?S ks v (NoopContext False) = Some (Inr (ok1, c1))" and f: "\<not> failed c1"
      by (auto simp: bind_eq_ret ret_def)
    from noop_loopD [OF every_loop_noop [OF nS] l] f have "c1 = NoopContext False" by auto
    with l have "every_loop ?S ks v (NoopContext False) = Some (Inr (ok1, NoopContext False))" by simp
    from every_loop_sim [OF nS nP Suc this]
    have u: "unfailed (every_loop ?P (map plainify ks) v (NoopContext False))" .
    have "not_false (bind (every_loop ?P (map plainify ks) v (NoopContext False))
        (\<lambda>(ok, c'). ret (ok \<and> \<not> failed c', c')))"
      by (rule unfailed_cases [OF u every_loop_noop [OF nP]]) simp_all
    with CIntersection show ?thesis by simp
  next
    case (CPartial k')
    with st sim_callD [OF Suc] show ?thesis by (cases "v = VUndefined") auto
  next
    case (COptional k')
    with st sim_callD [OF Suc] show ?thesis by (cases "v = VUndefined") auto
  next
    case (CIface bs ps isP ic strict a)
    with st iface_check_sim [OF nS nP Suc] show ?thesis by simp
  next
    case (CParamList ps)
    with st params_check_sim [OF nS nP Suc] show ?thesis by simp
  next
    case (CParamListStrict ps)
    with st have "params_check ?S ps v (NoopContext False) = Some (Inr (True, c))"
      by (auto dest: strict_length_True)
    with params_check_sim [OF nS nP Suc] CParamListStrict show ?thesis by simp
  qed
  then show ?case by (simp add: sim_call_def)
qed

lemma compile_plain:
  assumes "compile fuel suite True t = ret (ks, hs)"
  shows "compile fuel suite False t = ret (plainify ks, plain_store hs)"
proof -
  obtain r st' where g: "getChecker fuel suite True False None t empty_cstate = (r, st')"
    by (cases "getChecker fuel suite True False None t empty_cstate")
  have e: "plain_state empty_cstate = empty_cstate"
    by (simp add: plain_state_def plain_store_def empty_cstate_def)
  from plain_compD [OF getChecker_plain g] have
    "getChecker fuel suite False False None t empty_cstate = (map_res plainify r, plain_state st')"
    by (simp add: e)
  with assms g show ?thesis
    by (auto simp: compile_def ret_def split: option.splits sum.splits)
qed

text \<open>
  C2 (strict implies plain). The closure of \<open>RestType\<close> reads \<open>value.length\<close> without the
  \<open>Array.isArray\<close> test that the closures of \<open>TArray\<close>, \<open>TTuple\<close> and \<open>TParamList\<close> start
  with, and nothing rejects a Rest that is not the last element of its tuple. For
  \<open>union(tuple(tuple("number"), tuple(rest(array("number")), "string")), "any")\<close> and the
  value \<open>[[1, 2], [undefined, "x"]]\<close>, the strict closure of the first inner tuple rejects
  \<open>[1, 2]\<close> as too long, the outer tuple stops there and the alternative \<open>any\<close> accepts:
  \<open>strictTest\<close> returns true. The plain closure accepts \<open>[1, 2]\<close> and goes on to the second
  inner tuple, whose Rest closure is called on \<open>undefined\<close> and throws a TypeError out of
  \<open>test\<close>, which is documented to return true or false.
\<close>

theorem strict_accepts_plain_throws:
  "strictTest_type 6 (basicTypes False) nested_tuples nested_value = ret True
   \<and> test_type 6 (basicTypes False) nested_tuples nested_value
        = throw (TypeError ''Cannot read properties of undefined'')"
  by code_simp

text \<open>
  Where \<open>test\<close> returns, the two modes agree as C2 says: for every type node, every suite and
  every value, when the Checker has been built and \<open>strictTest(v)\<close> returns true, \<open>test(v)\<close>
  does not return false.
\<close>

lemma strict_implies_plain:
  assumes "new_Checker fuel suite t path = ret ck"
    and "strictTest n ck v = ret True"
  shows "test n ck v \<noteq> ret False"
proof
  assume f: "test n ck v = ret False"
  from assms(1) obtain kp hp ks hs where p: "compile fuel suite False t = ret (kp, hp)"
    and s: "compile fuel suite True t = ret (ks, hs)"
    and ck: "checkerPlain ck = (kp, hp)" "checkerStrict ck = (ks, hs)"
    by (auto simp: new_Checker_def bind_eq_ret ret_def)
  from compile_plain [OF s] p have kp: "kp = plainify ks" "hp = plain_store hs" by (auto simp: ret_def)
  from assms(2) ck obtain c where "run n hs ks v (NoopContext False) = Some (Inr (True, c))"
    by (auto simp: strictTest_def call_checker_def dest: bind_ret_True)
  from sim_callD [OF run_sim this] have "not_false (run n hp kp v (NoopContext False))" by (simp add: kp)
  moreover from f ck obtain c' where "run n hp kp v (NoopContext False) = Some (Inr (False, c'))"
    by (auto simp: test_def call_checker_def bind_eq_ret ret_def)
  ultimately show False by simp
qed

lemma strict_implies_plain_example:
  "bind (new_Checker 3 small_suite Person ''value'') (\<lambda>ck. ret (path_of ck)) = ret ''value''
   \<and> strictTest_type 3 small_suite Person (VObj [(''name'', VStr ''Al''), (''age'', VNum 3)]) = ret True
   \<and> test_type 3 small_suite Person (VObj [(''name'', VStr ''Al''), (''age'', VNum 3)]) = ret True"
proof -
  let ?v = "VObj [(''name'', VStr ''Al''), (''age'', VNum 3)]"
  have a: "bind (new_Checker 3 small_suite Person ''value'') (\<lambda>ck. ret (path_of ck)) = ret ''value''"
    by code_simp
  have b: "strictTest_type 3 small_suite Person ?v = ret True"
    by code_simp
  have c: "test_type 3 small_suite Person ?v = ret True"
    by code_simp
  from a obtain ck where ck: "new_Checker 3 small_suite Person ''value'' = ret ck"
    by (auto simp: bind_eq_ret ret_def)
  from b ck have s: "strictTest 3 ck ?v = ret True"
    by (simp add: strictTest_type_def)
  from strict_implies_plain [OF ck s] a b c show ?thesis
    by simp
qed

end
